theory Spec2Isabelle
  imports
    Main
    "HOL-Library.Char_ord"
    "HOL-Library.List_Lexorder"
    "HOL-Library.Multiset"
begin

section \<open>Weekly pull-request report: a model of \<^verbatim>\<open>weekly-pr-report.py\<close>\<close>

text \<open>
  The script computes a one-week window ending on a Friday at 16:00 KST, collects two
  paginated searches from the GitHub GraphQL API, counts pull requests and review
  comments by repository and by person, and posts a ranked summary to Slack.

  Conventions of the model:
  \<^item> Python's \<^verbatim>\<open>int\<close> is \<^typ>\<open>int\<close>; \<^verbatim>\<open>str\<close> is \<^typ>\<open>string\<close> (bytes of the
    UTF-8 encoding), ordered lexicographically as Python orders strings.
  \<^item> A dictionary key read with \<^verbatim>\<open>d[k]\<close> is a required record field; a key read with
    \<^verbatim>\<open>d.get(k)\<close> is an optional field (\<open>None\<close> when the key is absent or null).
  \<^item> An exception or \<^verbatim>\<open>sys.exit\<close> is a value \<open>Inl failure\<close>.
  \<^item> A \<^verbatim>\<open>defaultdict(int)\<close> is an association list in insertion order.
\<close>

subsection \<open>Failures\<close>

datatype failure =
    SystemExit int        \<comment> \<open>\<^verbatim>\<open>sys.exit(n)\<close>\<close>
  | KeyError string       \<comment> \<open>\<^verbatim>\<open>os.environ[name]\<close> on a missing name\<close>
  | OverflowError         \<comment> \<open>datetime arithmetic leaving the years 1..9999\<close>
  | URLError              \<comment> \<open>\<^verbatim>\<open>urlopen\<close> raising: no usable HTTP response\<close>

text \<open>The process exit status: an uncaught exception ends the interpreter with status 1.\<close>

fun exit_status :: "failure + 'a \<Rightarrow> int" where
  "exit_status (Inr _) = 0"
| "exit_status (Inl (SystemExit n)) = n"
| "exit_status (Inl _) = 1"

subsection \<open>Decimal rendering of numbers\<close>

fun show_nat :: "nat \<Rightarrow> string" where
  "show_nat n =
     (if n < 10 then [''0123456789'' ! n]
      else show_nat (n div 10) @ [''0123456789'' ! (n mod 10)])"

declare show_nat.simps [simp del]

definition show_int :: "int \<Rightarrow> string" where
  \<comment> \<open>\<^verbatim>\<open>str(i)\<close>\<close>
  "show_int i = (if i < 0 then CHR ''-'' # show_nat (nat (- i)) else show_nat (nat i))"

definition pad2 :: "int \<Rightarrow> string" where
  \<comment> \<open>the two-digit fields \<^verbatim>\<open>%m %d %H %M %S\<close>\<close>
  "pad2 i = (if i < 10 then ''0'' else []) @ show_nat (nat i)"

definition pad4 :: "int \<Rightarrow> string" where
  \<comment> \<open>\<^verbatim>\<open>%Y\<close>, the year with century, zero-filled to four digits\<close>
  "pad4 i = replicate (4 - length (show_nat (nat i))) CHR ''0'' @ show_nat (nat i)"

subsection \<open>Dates and times\<close>

text \<open>
  A \<^verbatim>\<open>datetime\<close> with a fixed-offset \<^verbatim>\<open>timezone\<close>. The date is kept as its proleptic
  Gregorian ordinal (\<^verbatim>\<open>date.toordinal()\<close>: day 1 is 0001-01-01); year, month and day
  are computed from it when a date is printed. The offset and every \<^verbatim>\<open>timedelta\<close> are
  counted in microseconds.
\<close>

type_synonym timedelta = int

record datetime =
  ordinal :: int
  hour :: int
  minute :: int
  second :: int
  microsecond :: int
  utcoffset :: timedelta

abbreviation US_PER_DAY :: int where "US_PER_DAY \<equiv> 86400000000"
abbreviation MAXORDINAL :: int where "MAXORDINAL \<equiv> 3652059"  \<comment> \<open>9999-12-31\<close>

definition timedelta_days :: "int \<Rightarrow> timedelta" where
  "timedelta_days n = n * US_PER_DAY"

definition timedelta_hours :: "int \<Rightarrow> timedelta" where
  "timedelta_hours n = n * 3600000000"

definition KST :: timedelta where
  "KST = timedelta_hours 9"

definition UTC :: timedelta where
  "UTC = 0"

definition REPORT_HOUR :: int where
  "REPORT_HOUR = 16"

definition valid_datetime :: "datetime \<Rightarrow> bool" where
  \<comment> \<open>the ranges every Python \<^verbatim>\<open>datetime\<close> object satisfies\<close>
  "valid_datetime d \<longleftrightarrow>
     1 \<le> ordinal d \<and> ordinal d \<le> MAXORDINAL \<and>
     0 \<le> hour d \<and> hour d < 24 \<and> 0 \<le> minute d \<and> minute d < 60 \<and>
     0 \<le> second d \<and> second d < 60 \<and> 0 \<le> microsecond d \<and> microsecond d < 1000000 \<and>
     - US_PER_DAY < utcoffset d \<and> utcoffset d < US_PER_DAY"

definition local_us :: "datetime \<Rightarrow> int" where
  \<comment> \<open>wall-clock microseconds since the start of day 0\<close>
  "local_us d =
     ordinal d * US_PER_DAY + hour d * 3600000000 + minute d * 60000000 +
     second d * 1000000 + microsecond d"

definition dt_add :: "datetime \<Rightarrow> timedelta \<Rightarrow> failure + datetime" where
  \<comment> \<open>\<^verbatim>\<open>datetime.__add__\<close>: wall-clock arithmetic, the time zone kept\<close>
  "dt_add d delta =
     (let t = local_us d + delta; days = t div US_PER_DAY; r = t mod US_PER_DAY in
      if 0 < days \<and> days \<le> MAXORDINAL then
        Inr \<lparr>ordinal = days, hour = r div 3600000000, minute = r div 60000000 mod 60,
             second = r div 1000000 mod 60, microsecond = r mod 1000000,
             utcoffset = utcoffset d\<rparr>
      else Inl OverflowError)"

definition dt_sub :: "datetime \<Rightarrow> datetime \<Rightarrow> timedelta" where
  \<comment> \<open>\<^verbatim>\<open>a - b\<close> for two aware datetimes: the difference of the instants\<close>
  "dt_sub a b = (local_us a - utcoffset a) - (local_us b - utcoffset b)"

definition dt_less :: "datetime \<Rightarrow> datetime \<Rightarrow> bool" where
  \<comment> \<open>\<^verbatim>\<open>a < b\<close> for two aware datetimes\<close>
  "dt_less a b \<longleftrightarrow> local_us a - utcoffset a < local_us b - utcoffset b"

definition weekday :: "datetime \<Rightarrow> int" where
  \<comment> \<open>Monday is 0, Friday is 4\<close>
  "weekday d = (ordinal d + 6) mod 7"

definition replace_time :: "datetime \<Rightarrow> int \<Rightarrow> int \<Rightarrow> int \<Rightarrow> int \<Rightarrow> datetime" where
  \<comment> \<open>\<^verbatim>\<open>d.replace(hour=h, minute=m, second=s, microsecond=us)\<close>\<close>
  "replace_time d h m s us = d\<lparr>hour := h, minute := m, second := s, microsecond := us\<rparr>"

definition astimezone :: "datetime \<Rightarrow> timedelta \<Rightarrow> failure + datetime" where
  \<comment> \<open>to UTC by subtracting the own offset, then to the target zone by adding its offset;
      converting to the own zone returns the object unchanged\<close>
  "astimezone d tz =
     (if utcoffset d = tz then Inr d
      else case dt_add d (- utcoffset d) of
        Inl e \<Rightarrow> Inl e
      | Inr u \<Rightarrow> dt_add (u\<lparr>utcoffset := tz\<rparr>) tz)"

subsubsection \<open>The calendar\<close>

definition DAYS_IN_MONTH :: "int list" where
  "DAYS_IN_MONTH = [-1, 31, 28, 31, 30, 31, 30, 31, 31, 30, 31, 30, 31]"

definition DAYS_BEFORE_MONTH :: "int list" where
  "DAYS_BEFORE_MONTH = [-1, 0, 31, 59, 90, 120, 151, 181, 212, 243, 273, 304, 334]"

definition is_leap :: "int \<Rightarrow> bool" where
  "is_leap year \<longleftrightarrow> year mod 4 = 0 \<and> (year mod 100 \<noteq> 0 \<or> year mod 400 = 0)"

definition days_before_year :: "int \<Rightarrow> int" where
  "days_before_year year =
     (let y = year - 1 in y * 365 + y div 4 - y div 100 + y div 400)"

definition days_before_month :: "int \<Rightarrow> int \<Rightarrow> int" where
  "days_before_month year month =
     DAYS_BEFORE_MONTH ! nat month + (if month > 2 \<and> is_leap year then 1 else 0)"

definition ymd2ord :: "int \<Rightarrow> int \<Rightarrow> int \<Rightarrow> int" where
  "ymd2ord year month day = days_before_year year + days_before_month year month + day"

definition ord2ymd :: "int \<Rightarrow> int \<times> int \<times> int" where
  "ord2ymd n0 =
     (let n = n0 - 1;
          n400 = n div 146097; na = n mod 146097;
          n100 = na div 36524; nb = na mod 36524;
          n4 = nb div 1461; nc = nb mod 1461;
          n1 = nc div 365; nd = nc mod 365;
          year = n400 * 400 + 1 + n100 * 100 + n4 * 4 + n1
      in
        if n1 = 4 \<or> n100 = 4 then (year - 1, 12, 31)
        else
          let leapyear = (n1 = 3 \<and> (n4 \<noteq> 24 \<or> n100 = 3));
              month = (nd + 50) div 32;
              preceding = DAYS_BEFORE_MONTH ! nat month + (if month > 2 \<and> leapyear then 1 else 0)
          in
            if preceding > nd then
              (year, month - 1,
               nd - (preceding - (DAYS_IN_MONTH ! nat (month - 1) +
                                  (if month - 1 = 2 \<and> leapyear then 1 else 0))) + 1)
            else (year, month, nd - preceding + 1))"

definition datetime_of ::
  "int \<Rightarrow> int \<Rightarrow> int \<Rightarrow> int \<Rightarrow> int \<Rightarrow> int \<Rightarrow> int \<Rightarrow> timedelta \<Rightarrow> datetime" where
  \<comment> \<open>the constructor \<^verbatim>\<open>datetime(year, month, day, hour, minute, second, microsecond, tzinfo)\<close>\<close>
  "datetime_of y m d hh mm ss us tz =
     \<lparr>ordinal = ymd2ord y m d, hour = hh, minute = mm, second = ss, microsecond = us,
      utcoffset = tz\<rparr>"

definition strftime_github :: "datetime \<Rightarrow> string" where
  \<comment> \<open>\<^verbatim>\<open>strftime("%Y-%m-%dT%H:%M:%SZ")\<close>\<close>
  "strftime_github d =
     (case ord2ymd (ordinal d) of (y, m, dd) \<Rightarrow>
        pad4 y @ ''-'' @ pad2 m @ ''-'' @ pad2 dd @ ''T'' @
        pad2 (hour d) @ '':'' @ pad2 (minute d) @ '':'' @ pad2 (second d) @ ''Z'')"

definition to_github_date :: "datetime \<Rightarrow> failure + string" where
  "to_github_date dt =
     (case astimezone dt UTC of Inl e \<Rightarrow> Inl e | Inr u \<Rightarrow> Inr (strftime_github u))"

subsection \<open>The report window\<close>

definition days_until_friday :: "datetime \<Rightarrow> int" where
  "days_until_friday now_kst = (4 - weekday now_kst) mod 7"

definition get_report_range :: "datetime \<Rightarrow> failure + (datetime \<times> datetime)" where
  \<comment> \<open>\<open>now_kst\<close> is the clock reading \<^verbatim>\<open>datetime.now(KST)\<close>\<close>
  "get_report_range now_kst =
     (case dt_add (replace_time now_kst REPORT_HOUR 0 0 0)
                  (timedelta_days (days_until_friday now_kst)) of
        Inl e \<Rightarrow> Inl e
      | Inr this_friday \<Rightarrow>
          (case dt_add this_friday (- timedelta_days 7) of
             Inl e \<Rightarrow> Inl e
           | Inr last_friday \<Rightarrow> Inr (last_friday, this_friday)))"

subsection \<open>Records returned by the search API\<close>

text \<open>
  A review node of the second query. \<open>review_author\<close> is the login under
  \<^verbatim>\<open>review.get("author")\<close> (\<open>None\<close> for a deleted account), \<open>createdAt\<close> the value
  under \<^verbatim>\<open>review.get("createdAt", "")\<close> (\<open>None\<close> when the key is absent), and
  \<open>totalCount\<close> is \<^verbatim>\<open>review["comments"]["totalCount"]\<close>.
\<close>

record review =
  review_author :: "string option"
  createdAt :: "string option"
  totalCount :: int

text \<open>
  A pull-request node of either query. \<open>reviews\<close> is the list under
  \<^verbatim>\<open>pr.get("reviews", {}).get("nodes", [])\<close>, \<open>None\<close> when either key is absent.
\<close>

record pull_request =
  repository_name :: string
  author_login :: "string option"
  reviews :: "review list option"

subsection \<open>Counting\<close>

type_synonym counter = "(string \<times> int) list"

fun incr :: "counter \<Rightarrow> string \<Rightarrow> int \<Rightarrow> counter" where
  \<comment> \<open>\<^verbatim>\<open>d[k] += n\<close> on a \<^verbatim>\<open>defaultdict(int)\<close>: a new key is appended, starting from 0\<close>
  "incr [] k n = [(k, 0 + n)]"
| "incr ((k', v) # d) k n = (if k' = k then (k', v + n) # d else (k', v) # incr d k n)"

definition "values" :: "counter \<Rightarrow> int list" where
  "values d = map snd d"

definition login_or_ghost :: "string option \<Rightarrow> string" where
  "login_or_ghost author = (case author of None \<Rightarrow> ''ghost'' | Some login \<Rightarrow> login)"

definition count_pr :: "pull_request \<Rightarrow> counter \<times> counter \<Rightarrow> counter \<times> counter" where
  \<comment> \<open>the body of the loop over \<^verbatim>\<open>created_prs\<close>\<close>
  "count_pr pr = (\<lambda>(pr_by_repo, pr_by_person).
     (incr pr_by_repo (repository_name pr) 1,
      incr pr_by_person (login_or_ghost (author_login pr)) 1))"

definition get_createdAt :: "review \<Rightarrow> string" where
  \<comment> \<open>\<^verbatim>\<open>review.get("createdAt", "")\<close>\<close>
  "get_createdAt rv = (case createdAt rv of None \<Rightarrow> [] | Some s \<Rightarrow> s)"

definition count_review ::
  "string \<Rightarrow> string \<Rightarrow> string \<Rightarrow> review \<Rightarrow> counter \<times> counter \<Rightarrow> counter \<times> counter" where
  \<comment> \<open>the body of the inner loop over the reviews of one pull request\<close>
  "count_review since_str until_str repo rv = (\<lambda>(comments_by_repo, comments_by_person).
     let created_at = get_createdAt rv in
     if \<not> (since_str \<le> created_at \<and> created_at \<le> until_str)
     then (comments_by_repo, comments_by_person)
     else (incr comments_by_repo repo (totalCount rv),
           incr comments_by_person (login_or_ghost (review_author rv)) (totalCount rv)))"

definition review_nodes :: "pull_request \<Rightarrow> review list" where
  "review_nodes pr = (case reviews pr of None \<Rightarrow> [] | Some rs \<Rightarrow> rs)"

definition count_reviews ::
  "string \<Rightarrow> string \<Rightarrow> pull_request \<Rightarrow> counter \<times> counter \<Rightarrow> counter \<times> counter" where
  \<comment> \<open>the body of the loop over \<^verbatim>\<open>updated_prs\<close>\<close>
  "count_reviews since_str until_str pr =
     fold (count_review since_str until_str (repository_name pr)) (review_nodes pr)"

definition desc :: "counter \<Rightarrow> counter" where
  \<comment> \<open>\<^verbatim>\<open>dict(sorted(d.items(), key=lambda x: -x[1]))\<close>; \<^verbatim>\<open>sorted\<close> is stable\<close>
  "desc d = sort_key (\<lambda>x. - snd x) d"

record stats =
  total_prs :: int
  total_comments :: int
  pr_by_repo :: counter
  pr_by_person :: counter
  comments_by_repo :: counter
  comments_by_person :: counter

definition aggregate ::
  "pull_request list \<Rightarrow> pull_request list \<Rightarrow> datetime \<Rightarrow> datetime \<Rightarrow> failure + stats" where
  "aggregate created_prs updated_prs since until =
     (case fold count_pr created_prs ([], []) of (by_repo, by_person) \<Rightarrow>
     (case to_github_date since of Inl e \<Rightarrow> Inl e | Inr since_str \<Rightarrow>
     (case to_github_date until of Inl e \<Rightarrow> Inl e | Inr until_str \<Rightarrow>
     (case fold (count_reviews since_str until_str) updated_prs ([], []) of
        (c_by_repo, c_by_person) \<Rightarrow>
          Inr \<lparr>total_prs = sum_list (values by_repo),
               total_comments = sum_list (values c_by_repo),
               pr_by_repo = desc by_repo,
               pr_by_person = desc by_person,
               comments_by_repo = desc c_by_repo,
               comments_by_person = desc c_by_person\<rparr>))))"

subsection \<open>Ranking text\<close>

definition NO_ACTIVITY :: string where
  \<comment> \<open>the Korean text for "no activity", in UTF-8\<close>
  "NO_ACTIVITY = [CHR 0xED, CHR 0x99, CHR 0x9C, CHR 0xEB, CHR 0x8F, CHR 0x99, CHR 0x20,
                  CHR 0xEC, CHR 0x97, CHR 0x86, CHR 0xEC, CHR 0x9D, CHR 0x8C]"

definition UNIT :: string where
  \<comment> \<open>the default unit suffix, a Korean counter word, in UTF-8\<close>
  "UNIT = [CHR 0xEA, CHR 0xB1, CHR 0xB4]"

fun join :: "string \<Rightarrow> string list \<Rightarrow> string" where
  "join sep [] = []"
| "join sep [x] = x"
| "join sep (x # y # ys) = x @ sep @ join sep (y # ys)"

definition ranking_line :: "string \<Rightarrow> nat \<times> string \<times> int \<Rightarrow> string" where
  "ranking_line unit = (\<lambda>(i, name, count).
     show_nat i @ ''. '' @ name @ '': '' @ show_int count @ unit)"

definition ranking :: "counter \<Rightarrow> string \<Rightarrow> nat \<Rightarrow> string" where
  "ranking data unit limit =
     (let items = take limit data in
      if items = [] then NO_ACTIVITY
      else join [CHR 0x0A] (map (ranking_line unit) (enumerate 1 items)))"

definition ranking_default :: "counter \<Rightarrow> string" where
  \<comment> \<open>the call \<^verbatim>\<open>ranking(data)\<close> with the default unit and \<^verbatim>\<open>limit=10\<close>\<close>
  "ranking_default data = ranking data UNIT 10"

subsection \<open>The outside world\<close>

text \<open>
  The process environment maps names to values. The two remote services are functions
  from a request to a reply. The effects of a run are collected in a \<open>world\<close>: the URLs
  posted to, in order, and the lines written to the error and output streams.
\<close>

type_synonym env = "string \<rightharpoonup> string"

datatype query = CreatedQuery | ReviewsQuery
  \<comment> \<open>the GraphQL documents of \<^verbatim>\<open>search_prs_created\<close> and \<^verbatim>\<open>search_prs_with_reviews\<close>\<close>

record 'c search_page =
  nodes :: "pull_request option list"  \<comment> \<open>\<open>None\<close>: a node that is null or empty\<close>
  hasNextPage :: bool
  endCursor :: "'c option"

record 'c graphql_request =
  bearer :: string
  document :: query
  search_q :: string
  after :: "'c option"

datatype 'c graphql_reply =
    NoReply                      \<comment> \<open>\<^verbatim>\<open>urlopen\<close> raises\<close>
  | Errors string                \<comment> \<open>the reply has an \<^verbatim>\<open>errors\<close> member\<close>
  | Data "'c search_page"        \<comment> \<open>\<^verbatim>\<open>data["data"]["search"]\<close>\<close>

type_synonym 'c github = "'c graphql_request \<Rightarrow> 'c graphql_reply"

record slack_request =
  slack_bearer :: string
  channel :: string
  message_stats :: stats
  rankings :: "string list"      \<comment> \<open>the four ranking texts, in the order of the blocks\<close>
  period :: "datetime \<times> datetime"  \<comment> \<open>the dates of the context line\<close>

datatype slack_reply =
    NoSlackReply
  | SlackResult bool "string option"   \<comment> \<open>\<^verbatim>\<open>result.get("ok")\<close> and \<^verbatim>\<open>result.get("error")\<close>\<close>

type_synonym slack = "slack_request \<Rightarrow> slack_reply"

datatype err_line =
    GraphQLErrorsLine string
  | TruncationWarning
  | OrgNameRequired
  | SlackErrorLine "string option"

datatype out_line =
    ReportHeader string datetime datetime
  | CreatedCount nat
  | ReviewedCount nat
  | Totals int int
  | SlackSent

record world =
  net :: "string list"
  stderr :: "err_line list"
  stdout :: "out_line list"

type_synonym 'a outcome = "(failure + 'a) \<times> world"

definition GRAPHQL_URL :: string where
  "GRAPHQL_URL = ''https://api.github.com/graphql''"

definition SLACK_URL :: string where
  "SLACK_URL = ''https://slack.com/api/chat.postMessage''"

subsection \<open>The query client\<close>

definition graphql ::
  "env \<Rightarrow> 'c github \<Rightarrow> query \<Rightarrow> string \<Rightarrow> 'c option \<Rightarrow> world \<Rightarrow> 'c search_page outcome" where
  "graphql environ github query q cursor w =
     (case environ ''GH_TOKEN'' of
        None \<Rightarrow> (Inl (KeyError ''GH_TOKEN''), w)
      | Some token \<Rightarrow>
          (let w' = w\<lparr>net := net w @ [GRAPHQL_URL]\<rparr> in
           (case github \<lparr>bearer = token, document = query, search_q = q, after = cursor\<rparr> of
              NoReply \<Rightarrow> (Inl URLError, w')
            | Errors errs \<Rightarrow>
                (Inl (SystemExit 1), w'\<lparr>stderr := stderr w' @ [GraphQLErrorsLine errs]\<rparr>)
            | Data search \<Rightarrow> (Inr search, w'))))"

definition truthy_nodes :: "'c search_page \<Rightarrow> pull_request list" where
  \<comment> \<open>\<^verbatim>\<open>[n for n in search["nodes"] if n]\<close>\<close>
  "truthy_nodes search = List.map_filter (\<lambda>n. n) (nodes search)"

text \<open>
  The loop of \<^verbatim>\<open>_paginate_search\<close>, from the state at the head of an iteration. It
  need not end: the result is \<open>None\<close> when the loop runs forever.
\<close>

partial_function (option) paginate_loop ::
  "env \<Rightarrow> 'c github \<Rightarrow> query \<Rightarrow> string \<Rightarrow> 'c option \<Rightarrow> pull_request list \<Rightarrow> world \<Rightarrow>
   pull_request list outcome option" where
  [code]: "paginate_loop environ github query q cursor results w =
     (case graphql environ github query q cursor w of
        (Inl e, w') \<Rightarrow> Some (Inl e, w')
      | (Inr search, w') \<Rightarrow>
          (let results' = results @ truthy_nodes search in
           if \<not> hasNextPage search then Some (Inr results', w')
           else if length results' \<ge> 1000
             then Some (Inr results', w'\<lparr>stderr := stderr w' @ [TruncationWarning]\<rparr>)
             else paginate_loop environ github query q (endCursor search) results' w'))"

definition paginate_search ::
  "env \<Rightarrow> 'c github \<Rightarrow> query \<Rightarrow> string \<Rightarrow> world \<Rightarrow> pull_request list outcome option" where
  "paginate_search environ github query q w = paginate_loop environ github query q None [] w"

definition search_string :: "string \<Rightarrow> string \<Rightarrow> datetime \<Rightarrow> datetime \<Rightarrow> failure + string" where
  \<comment> \<open>\<^verbatim>\<open>f"org:{org} type:pr {field}:{to_github_date(since)}..{to_github_date(until)}"\<close>\<close>
  "search_string org field since until =
     (case to_github_date since of Inl e \<Rightarrow> Inl e | Inr a \<Rightarrow>
     (case to_github_date until of Inl e \<Rightarrow> Inl e | Inr b \<Rightarrow>
        Inr (''org:'' @ org @ '' type:pr '' @ field @ '':'' @ a @ ''..'' @ b)))"

definition search_prs_created ::
  "env \<Rightarrow> 'c github \<Rightarrow> string \<Rightarrow> datetime \<Rightarrow> datetime \<Rightarrow> world \<Rightarrow>
   pull_request list outcome option" where
  "search_prs_created environ github org since until w =
     (case search_string org ''created'' since until of
        Inl e \<Rightarrow> Some (Inl e, w)
      | Inr q \<Rightarrow> paginate_search environ github CreatedQuery q w)"

definition search_prs_with_reviews ::
  "env \<Rightarrow> 'c github \<Rightarrow> string \<Rightarrow> datetime \<Rightarrow> datetime \<Rightarrow> world \<Rightarrow>
   pull_request list outcome option" where
  "search_prs_with_reviews environ github org since until w =
     (case search_string org ''updated'' since until of
        Inl e \<Rightarrow> Some (Inl e, w)
      | Inr q \<Rightarrow> paginate_search environ github ReviewsQuery q w)"

subsection \<open>Publishing and the main program\<close>

definition send_slack :: "env \<Rightarrow> slack \<Rightarrow> stats \<Rightarrow> datetime \<Rightarrow> datetime \<Rightarrow> world \<Rightarrow> unit outcome" where
  "send_slack environ slack_api st since until w =
     (case environ ''SLACK_BOT_TOKEN'' of
        None \<Rightarrow> (Inl (KeyError ''SLACK_BOT_TOKEN''), w)
      | Some token \<Rightarrow>
     (case environ ''SLACK_CHANNEL_ID'' of
        None \<Rightarrow> (Inl (KeyError ''SLACK_CHANNEL_ID''), w)
      | Some chan \<Rightarrow>
     (case astimezone since KST of Inl e \<Rightarrow> (Inl e, w) | Inr since_kst \<Rightarrow>
     (case astimezone until KST of Inl e \<Rightarrow> (Inl e, w) | Inr until_kst \<Rightarrow>
       (let payload = \<lparr>slack_bearer = token, channel = chan, message_stats = st,
                       rankings = [ranking_default (pr_by_repo st),
                                   ranking_default (pr_by_person st),
                                   ranking_default (comments_by_repo st),
                                   ranking_default (comments_by_person st)],
                       period = (since_kst, until_kst)\<rparr>;
            w' = w\<lparr>net := net w @ [SLACK_URL]\<rparr>
        in (case slack_api payload of
              NoSlackReply \<Rightarrow> (Inl URLError, w')
            | SlackResult ok err \<Rightarrow>
                if \<not> ok then (Inl (SystemExit 1), w'\<lparr>stderr := stderr w' @ [SlackErrorLine err]\<rparr>)
                else (Inr (), w'\<lparr>stdout := stdout w' @ [SlackSent]\<rparr>)))))))"

definition main :: "env \<Rightarrow> datetime \<Rightarrow> 'c github \<Rightarrow> slack \<Rightarrow> world \<Rightarrow> unit outcome option" where
  \<comment> \<open>\<open>now_kst\<close> is the clock reading taken by \<^verbatim>\<open>get_report_range\<close>\<close>
  "main environ now_kst github slack_api w0 =
     (case environ ''ORG_NAME'' of
        None \<Rightarrow> Some (Inl (SystemExit 1), w0\<lparr>stderr := stderr w0 @ [OrgNameRequired]\<rparr>)
      | Some org \<Rightarrow>
     if org = [] then Some (Inl (SystemExit 1), w0\<lparr>stderr := stderr w0 @ [OrgNameRequired]\<rparr>)
     else
     (case get_report_range now_kst of Inl e \<Rightarrow> Some (Inl e, w0) | Inr (since, until) \<Rightarrow>
     (case astimezone since KST of Inl e \<Rightarrow> Some (Inl e, w0) | Inr since_kst \<Rightarrow>
     (case astimezone until KST of Inl e \<Rightarrow> Some (Inl e, w0) | Inr until_kst \<Rightarrow>
     (let w1 = w0\<lparr>stdout := stdout w0 @ [ReportHeader org since_kst until_kst]\<rparr> in
     (case search_prs_created environ github org since until w1 of
        None \<Rightarrow> None
      | Some (Inl e, w2) \<Rightarrow> Some (Inl e, w2)
      | Some (Inr created_prs, w2) \<Rightarrow>
     (let w3 = w2\<lparr>stdout := stdout w2 @ [CreatedCount (length created_prs)]\<rparr> in
     (case search_prs_with_reviews environ github org since until w3 of
        None \<Rightarrow> None
      | Some (Inl e, w4) \<Rightarrow> Some (Inl e, w4)
      | Some (Inr updated_prs, w4) \<Rightarrow>
     (let w5 = w4\<lparr>stdout := stdout w4 @ [ReviewedCount (length updated_prs)]\<rparr> in
     (case aggregate created_prs updated_prs since until of
        Inl e \<Rightarrow> Some (Inl e, w5)
      | Inr st \<Rightarrow>
     (let w6 = w5\<lparr>stdout := stdout w5 @ [Totals (total_prs st) (total_comments st)]\<rparr> in
      Some (send_slack environ slack_api st since until w6))))))))))))"

subsection \<open>A scripted search API\<close>

text \<open>
  A simulated API that serves a fixed list of pages: the cursor is the index of the next
  page, and the first request carries no cursor. Past the end of the script it has no
  reply.
\<close>

record page =
  items :: "pull_request option list"
  has_more :: bool

definition cursor_index :: "nat option \<Rightarrow> nat" where
  "cursor_index c = (case c of None \<Rightarrow> 0 | Some i \<Rightarrow> i)"

definition scripted :: "page list \<Rightarrow> nat github" where
  "scripted pages request =
     (let i = cursor_index (after request) in
      if i < length pages
      then Data \<lparr>nodes = items (pages ! i), hasNextPage = has_more (pages ! i),
                 endCursor = Some (i + 1)\<rparr>
      else NoReply)"

definition page_nodes :: "page \<Rightarrow> pull_request list" where
  \<comment> \<open>the nodes of a page that are not null\<close>
  "page_nodes p = List.map_filter (\<lambda>n. n) (items p)"

subsection \<open>Notions used to state the properties\<close>

definition valid_time :: "datetime \<Rightarrow> bool" where
  "valid_time d \<longleftrightarrow>
     0 \<le> hour d \<and> hour d < 24 \<and> 0 \<le> minute d \<and> minute d < 60 \<and>
     0 \<le> second d \<and> second d < 60 \<and> 0 \<le> microsecond d \<and> microsecond d < 1000000"

definition count_at :: "counter \<Rightarrow> string \<Rightarrow> int" where
  \<comment> \<open>the count a mapping holds for a key, 0 for a key it does not hold\<close>
  "count_at d k = (case map_of d k of None \<Rightarrow> 0 | Some v \<Rightarrow> v)"

definition in_window :: "string \<Rightarrow> string \<Rightarrow> review \<Rightarrow> bool" where
  \<comment> \<open>the test \<^verbatim>\<open>since_str <= created_at <= until_str\<close> of the inner loop\<close>
  "in_window since_str until_str rv \<longleftrightarrow>
     since_str \<le> get_createdAt rv \<and> get_createdAt rv \<le> until_str"

definition contribution :: "string \<Rightarrow> string \<Rightarrow> review \<Rightarrow> int" where
  \<comment> \<open>what a review adds to a comment counter: its comment count inside the window, else 0\<close>
  "contribution since_str until_str rv =
     (if since_str \<le> get_createdAt rv \<and> get_createdAt rv \<le> until_str
      then totalCount rv else 0)"

definition fatal :: "failure \<Rightarrow> bool" where
  \<comment> \<open>the failure ends the process with a status other than 0\<close>
  "fatal e \<longleftrightarrow> exit_status (Inl e :: failure + unit) \<noteq> 0"

definition keep_reviews :: "(review \<Rightarrow> bool) \<Rightarrow> pull_request \<Rightarrow> pull_request" where
  \<comment> \<open>the record with only those of its reviews that satisfy \<open>P\<close>\<close>
  "keep_reviews P pr = pr\<lparr>reviews := map_option (filter P) (reviews pr)\<rparr>"

definition this_friday_of :: "datetime \<Rightarrow> datetime" where
  \<comment> \<open>the day of \<open>now_kst\<close> moved forward to Friday, at the report hour\<close>
  "this_friday_of now_kst =
     (replace_time now_kst REPORT_HOUR 0 0 0)
       \<lparr>ordinal := ordinal now_kst + days_until_friday now_kst\<rparr>"

subsection \<open>Sample data\<close>

definition sample_pr :: pull_request where
  "sample_pr = \<lparr>repository_name = ''x'', author_login = Some ''alice'', reviews = None\<rparr>"

definition full_page :: page where
  \<comment> \<open>100 nodes, none of them null, and a next page\<close>
  "full_page = \<lparr>items = replicate 100 (Some sample_pr), has_more = True\<rparr>"

definition holed_page :: page where
  \<comment> \<open>100 nodes, the first of them null, and a next page\<close>
  "holed_page = \<lparr>items = None # replicate 99 (Some sample_pr), has_more = True\<rparr>"

definition sample_env :: env where
  "sample_env = [''ORG_NAME'' \<mapsto> ''demo'', ''GH_TOKEN'' \<mapsto> ''token'']"

definition empty_world :: world where
  "empty_world = \<lparr>net = [], stderr = [], stdout = []\<rparr>"

definition slack_ok :: slack where
  \<comment> \<open>a chat service that accepts every message\<close>
  "slack_ok request = SlackResult True None"

definition empty_page :: page where
  \<comment> \<open>a page without nodes and without a next page\<close>
  "empty_page = \<lparr>items = [], has_more = False\<rparr>"

section \<open>Properties\<close>

subsection \<open>Arithmetic of dates\<close>

lemma div_step:
  fixes a b r :: int
  assumes "0 \<le> r" "r < b"
  shows "(a * b + r) div b = a"
  using assms by simp

lemma mod_step:
  fixes a b r :: int
  assumes "0 \<le> r" "r < b"
  shows "(a * b + r) mod b = r"
  using assms by simp

lemma time_of_day_split:
  fixes h m s u :: int
  assumes "0 \<le> h" "h < 24" "0 \<le> m" "m < 60" "0 \<le> s" "s < 60" "0 \<le> u" "u < 1000000"
  defines "r \<equiv> h * 3600000000 + m * 60000000 + s * 1000000 + u"
  shows "0 \<le> r" "r < US_PER_DAY" "r div 3600000000 = h" "r div 60000000 mod 60 = m"
    "r div 1000000 mod 60 = s" "r mod 1000000 = u"
proof -
  show "0 \<le> r" using assms(1,3,5,7) unfolding r_def by linarith
  show "r < US_PER_DAY" using assms(2,4,6,8) unfolding r_def by linarith
  have a: "r = h * 3600000000 + (m * 60000000 + s * 1000000 + u)"
    unfolding r_def by linarith
  have "0 \<le> m * 60000000 + s * 1000000 + u" "m * 60000000 + s * 1000000 + u < 3600000000"
    using assms by linarith+
  then show "r div 3600000000 = h" unfolding a by (rule div_step)
  have b: "r = (h * 60 + m) * 60000000 + (s * 1000000 + u)"
    unfolding r_def by (simp add: distrib_right)
  have "0 \<le> s * 1000000 + u" "s * 1000000 + u < 60000000"
    using assms by linarith+
  then have "r div 60000000 = h * 60 + m" unfolding b by (rule div_step)
  moreover have "(h * 60 + m) mod 60 = m" using mod_step [OF assms(3,4)] .
  ultimately show "r div 60000000 mod 60 = m" by simp
  have c: "r = ((h * 60 + m) * 60 + s) * 1000000 + u"
    unfolding r_def by (simp add: distrib_right)
  have "r div 1000000 = (h * 60 + m) * 60 + s" unfolding c using assms(7,8) by (rule div_step)
  moreover have "((h * 60 + m) * 60 + s) mod 60 = s" using mod_step [OF assms(5,6)] .
  ultimately show "r div 1000000 mod 60 = s" by simp
  show "r mod 1000000 = u" unfolding c using assms(7,8) by (rule mod_step)
qed

lemma local_us_split:
  assumes "valid_time d"
  shows "\<exists>r. local_us d = ordinal d * US_PER_DAY + r \<and> 0 \<le> r \<and> r < US_PER_DAY \<and>
     r div 3600000000 = hour d \<and> r div 60000000 mod 60 = minute d \<and>
     r div 1000000 mod 60 = second d \<and> r mod 1000000 = microsecond d"
proof -
  from assms have b: "0 \<le> hour d" "hour d < 24" "0 \<le> minute d" "minute d < 60"
      "0 \<le> second d" "second d < 60" "0 \<le> microsecond d" "microsecond d < 1000000"
    by (simp_all add: valid_time_def)
  note t = time_of_day_split [OF b]
  have "local_us d = ordinal d * US_PER_DAY +
      (hour d * 3600000000 + minute d * 60000000 + second d * 1000000 + microsecond d)"
    unfolding local_us_def by linarith
  with t show ?thesis by blast
qed

text \<open>Adding whole days moves the date and keeps the time of day.\<close>

lemma dt_add_days:
  assumes "valid_time d"
  shows "dt_add d (timedelta_days k) =
     (if 0 < ordinal d + k \<and> ordinal d + k \<le> MAXORDINAL
      then Inr (d\<lparr>ordinal := ordinal d + k\<rparr>) else Inl OverflowError)"
proof -
  from local_us_split [OF assms] obtain r where
    r: "local_us d = ordinal d * US_PER_DAY + r" "0 \<le> r" "r < US_PER_DAY"
       "r div 3600000000 = hour d" "r div 60000000 mod 60 = minute d"
       "r div 1000000 mod 60 = second d" "r mod 1000000 = microsecond d"
    by blast
  have t: "local_us d + timedelta_days k = (ordinal d + k) * US_PER_DAY + r"
    by (simp add: r(1) timedelta_days_def algebra_simps)
  have "(local_us d + timedelta_days k) div US_PER_DAY = ordinal d + k"
    unfolding t by (rule div_step [OF r(2,3)])
  moreover have "(local_us d + timedelta_days k) mod US_PER_DAY = r"
    unfolding t by (rule mod_step [OF r(2,3)])
  ultimately show ?thesis
    by (simp add: dt_add_def Let_def r)
qed

lemma valid_time_replace: "valid_time (replace_time d REPORT_HOUR 0 0 0)"
  by (simp add: valid_time_def replace_time_def REPORT_HOUR_def)

lemma friday_after: "(n + (4 - (n + 6) mod 7) mod 7 + 6) mod 7 = (4::int)"
proof -
  have e: "n + k + 6 = n + 6 + k" for k :: int by simp
  have f: "a + (4 - b) = n + 10 - b" if "a = n + 6" for a b :: int using that by simp
  have "(n + (4 - (n + 6) mod 7) mod 7 + 6) mod 7 = (n + 6 + (4 - (n + 6) mod 7) mod 7) mod 7"
    by (simp only: e)
  also have "\<dots> = (n + 6 + (4 - (n + 6) mod 7)) mod 7"
    by (rule mod_add_right_eq)
  also have "\<dots> = (n + 10 - (n + 6) mod 7) mod 7"
    by (simp only: f [OF refl])
  also have "\<dots> = (n + 10 - (n + 6)) mod 7"
    by (rule mod_diff_right_eq)
  also have "\<dots> = 4" by simp
  finally show ?thesis .
qed
lemma same_weekday_close:
  fixes t M :: int
  assumes "(t + 6) mod 7 = 4" "(M + 6) mod 7 = 4" "t < M + 7"
  shows "t \<le> M"
  using assms by presburger
lemma friday_max: "n \<le> MAXORDINAL \<Longrightarrow> n + (4 - (n + 6) mod 7) mod 7 \<le> MAXORDINAL"
proof -
  assume n: "n \<le> MAXORDINAL"
  let ?k = "(4 - (n + 6) mod 7) mod 7"
  have "?k < 7" by simp
  with n have "n + ?k < MAXORDINAL + 7" by linarith
  moreover have "(n + ?k + 6) mod 7 = 4" by (rule friday_after)
  moreover have "(MAXORDINAL + 6) mod 7 = 4" by simp
  ultimately show ?thesis by (rule same_weekday_close [rotated 2])
qed
lemma friday_min: "6 \<le> n \<Longrightarrow> 7 < n + (4 - (n + 6) mod 7) mod (7::int)"
proof -
  assume n: "6 \<le> n"
  have k: "0 \<le> (4 - (n + 6) mod 7) mod 7" by simp
  consider "n = 6" | "n = 7" | "8 \<le> n" using n by linarith
  then show ?thesis
  proof cases
    case 3 with k show ?thesis by linarith
  qed simp_all
qed

subsection \<open>The report window\<close>

lemma this_friday_of_fields:
  "ordinal (this_friday_of d) = ordinal d + days_until_friday d"
  "hour (this_friday_of d) = 16" "minute (this_friday_of d) = 0"
  "second (this_friday_of d) = 0" "microsecond (this_friday_of d) = 0"
  "utcoffset (this_friday_of d) = utcoffset d"
  by (simp_all add: this_friday_of_def replace_time_def REPORT_HOUR_def)

lemma valid_time_this_friday: "valid_time (this_friday_of d)"
  by (simp add: valid_time_def this_friday_of_fields)

text \<open>The resolver in closed form: the two additions fail only by leaving the calendar.\<close>

lemma get_report_range_eq:
  "get_report_range now_kst =
     (let e = this_friday_of now_kst in
      if 0 < ordinal e \<and> ordinal e \<le> MAXORDINAL then
        if 0 < ordinal e - 7 \<and> ordinal e - 7 \<le> MAXORDINAL
        then Inr (e\<lparr>ordinal := ordinal e - 7\<rparr>, e) else Inl OverflowError
      else Inl OverflowError)"
proof -
  let ?e = "this_friday_of now_kst"
  have m: "- timedelta_days 7 = timedelta_days (- 7)"
    by (simp add: timedelta_days_def)
  have 1: "dt_add (replace_time now_kst REPORT_HOUR 0 0 0)
             (timedelta_days (days_until_friday now_kst)) =
           (if 0 < ordinal ?e \<and> ordinal ?e \<le> MAXORDINAL then Inr ?e else Inl OverflowError)"
    unfolding dt_add_days [OF valid_time_replace]
    by (simp add: this_friday_of_def replace_time_def)
  have 2: "dt_add ?e (- timedelta_days 7) =
           (if 0 < ordinal ?e - 7 \<and> ordinal ?e - 7 \<le> MAXORDINAL
            then Inr (?e\<lparr>ordinal := ordinal ?e - 7\<rparr>) else Inl OverflowError)"
    unfolding m dt_add_days [OF valid_time_this_friday] by simp
  show ?thesis
    unfolding get_report_range_def 1 Let_def
    by (cases "0 < ordinal ?e \<and> ordinal ?e \<le> MAXORDINAL") (simp_all add: 2)
qed

lemma weekday_this_friday: "weekday (this_friday_of d) = 4"
  by (simp add: weekday_def this_friday_of_fields days_until_friday_def friday_after)

lemma dt_sub_week: "dt_sub e (e\<lparr>ordinal := ordinal e - 7\<rparr>) = timedelta_days 7"
  by (simp add: dt_sub_def local_us_def timedelta_days_def)

lemma get_report_range_returns:
  assumes "6 \<le> ordinal now_kst" "ordinal now_kst \<le> MAXORDINAL"
  shows "get_report_range now_kst =
     Inr ((this_friday_of now_kst)\<lparr>ordinal := ordinal (this_friday_of now_kst) - 7\<rparr>,
          this_friday_of now_kst)"
proof -
  have "7 < ordinal (this_friday_of now_kst)" "ordinal (this_friday_of now_kst) \<le> MAXORDINAL"
    using assms friday_min [of "ordinal now_kst"] friday_max [of "ordinal now_kst"]
    by (simp_all add: this_friday_of_fields days_until_friday_def weekday_def)
  then show ?thesis
    by (simp add: get_report_range_eq Let_def)
qed

lemma get_report_range_InrD:
  assumes "get_report_range now_kst = Inr (since, until)"
  shows "until = this_friday_of now_kst" "since = until\<lparr>ordinal := ordinal until - 7\<rparr>"
  using assms by (auto simp: get_report_range_eq Let_def split: if_splits)

text \<open>
  Claim C3. Whenever the resolver returns a window, its end minus its start is exactly
  seven days and its end is a Friday at 16:00:00.000000; and the resolver does return a
  window for every clock reading from 0001-01-06 on (before that day the start of the
  window would precede year 1, where Python's date arithmetic raises).
\<close>

theorem get_report_range_window:
  "(\<forall>since until. get_report_range now_kst = Inr (since, until) \<longrightarrow>
      dt_sub until since = timedelta_days 7 \<and> weekday until = 4 \<and>
      hour until = 16 \<and> minute until = 0 \<and> second until = 0 \<and> microsecond until = 0) \<and>
   (6 \<le> ordinal now_kst \<and> ordinal now_kst \<le> MAXORDINAL \<longrightarrow>
      (\<exists>since until. get_report_range now_kst = Inr (since, until)))"
proof -
  have A: "dt_sub until since = timedelta_days 7 \<and> weekday until = 4 \<and>
      hour until = 16 \<and> minute until = 0 \<and> second until = 0 \<and> microsecond until = 0"
    if "get_report_range now_kst = Inr (since, until)" for since until
  proof -
    note d = get_report_range_InrD [OF that]
    show ?thesis
      unfolding d(2) dt_sub_week unfolding d(1)
      by (simp add: weekday_this_friday this_friday_of_fields)
  qed
  have B: "\<exists>since until. get_report_range now_kst = Inr (since, until)"
    if "6 \<le> ordinal now_kst \<and> ordinal now_kst \<le> MAXORDINAL"
    using get_report_range_returns [of now_kst] that by simp
  from A B show ?thesis by blast
qed

theorem get_report_range_window_witness:
  "\<exists>since until.
      get_report_range (datetime_of 2024 1 3 10 11 12 13 KST) = Inr (since, until) \<and>
      dt_sub until since = timedelta_days 7 \<and> weekday until = 4 \<and>
      hour until = 16 \<and> minute until = 0 \<and> second until = 0 \<and> microsecond until = 0"
proof -
  let ?now = "datetime_of 2024 1 3 10 11 12 13 KST"
  have o: "ordinal ?now = 738888" by code_simp
  from get_report_range_window [of ?now] show ?thesis
    unfolding o by simp blast
qed

subsection \<open>A run on a Friday\<close>

lemma days_until_friday_on_friday: "weekday d = 4 \<Longrightarrow> days_until_friday d = 0"
  by (simp add: days_until_friday_def)

lemma this_friday_of_cong:
  assumes "ordinal a = ordinal b" "utcoffset a = utcoffset b"
  shows "this_friday_of a = this_friday_of b"
  using assms
  by (cases a, cases b) (simp add: this_friday_of_def replace_time_def days_until_friday_def weekday_def)

lemma get_report_range_cong:
  assumes "ordinal a = ordinal b" "utcoffset a = utcoffset b"
  shows "get_report_range a = get_report_range b"
  unfolding get_report_range_eq this_friday_of_cong [OF assms] ..

lemma dt_less_same_day:
  assumes "ordinal a = ordinal b" "utcoffset a = utcoffset b" "valid_time a" "valid_time b" "hour a < hour b"
  shows "dt_less a b"
proof -
  have "minute a * 60000000 + second a * 1000000 + microsecond a < 3600000000"
    using assms(3) unfolding valid_time_def by linarith
  moreover have "0 \<le> minute b * 60000000 + second b * 1000000 + microsecond b"
    using assms(4) unfolding valid_time_def by linarith
  moreover have "(hour a + 1) * 3600000000 \<le> hour b * 3600000000"
    using assms(5) by simp
  ultimately show ?thesis
    unfolding dt_less_def local_us_def assms(1,2) by (simp add: distrib_right)
qed

text \<open>
  Claim C4. When the clock reading is a Friday, \<open>days_until_friday\<close> is 0 and the window
  ends on the reading's own date at 16:00. The end depends on the date alone: any other
  reading of the same date gives the same window, so the end lies after a reading taken
  before 16:00 and before a reading taken from 17:00 on.
\<close>

theorem friday_run_ends_today:
  assumes "weekday now_kst = 4"
  shows "days_until_friday now_kst = 0 \<and>
    (\<forall>since until. get_report_range now_kst = Inr (since, until) \<longrightarrow>
        until = replace_time now_kst REPORT_HOUR 0 0 0 \<and>
        (\<forall>other. ordinal other = ordinal now_kst \<and> utcoffset other = utcoffset now_kst \<longrightarrow>
           get_report_range other = Inr (since, until)) \<and>
        (valid_time now_kst \<and> hour now_kst < 16 \<longrightarrow> dt_less now_kst until) \<and>
        (valid_time now_kst \<and> 16 < hour now_kst \<longrightarrow> dt_less until now_kst)) \<and>
    (6 \<le> ordinal now_kst \<and> ordinal now_kst \<le> MAXORDINAL \<longrightarrow>
        (\<exists>since. get_report_range now_kst = Inr (since, replace_time now_kst REPORT_HOUR 0 0 0)))"
proof -
  note z = days_until_friday_on_friday [OF assms]
  have tf: "this_friday_of now_kst = replace_time now_kst REPORT_HOUR 0 0 0"
    by (simp add: this_friday_of_def z replace_time_def)
  have A: "until = replace_time now_kst REPORT_HOUR 0 0 0 \<and>
        (\<forall>other. ordinal other = ordinal now_kst \<and> utcoffset other = utcoffset now_kst \<longrightarrow>
           get_report_range other = Inr (since, until)) \<and>
        (valid_time now_kst \<and> hour now_kst < 16 \<longrightarrow> dt_less now_kst until) \<and>
        (valid_time now_kst \<and> 16 < hour now_kst \<longrightarrow> dt_less until now_kst)"
    if r: "get_report_range now_kst = Inr (since, until)" for since until
  proof -
    have u: "until = replace_time now_kst REPORT_HOUR 0 0 0"
      using get_report_range_InrD(1) [OF r] tf by simp
    have f: "ordinal until = ordinal now_kst" "utcoffset until = utcoffset now_kst"
      "hour until = 16" "valid_time until"
      unfolding u using valid_time_replace [of now_kst]
      by (simp_all add: replace_time_def REPORT_HOUR_def)
    have "get_report_range other = Inr (since, until)"
      if "ordinal other = ordinal now_kst \<and> utcoffset other = utcoffset now_kst" for other
      using get_report_range_cong [of other now_kst] that r by simp
    moreover have "dt_less now_kst until" if "valid_time now_kst \<and> hour now_kst < 16"
      using dt_less_same_day [of now_kst until] that f by simp
    moreover have "dt_less until now_kst" if "valid_time now_kst \<and> 16 < hour now_kst"
      using dt_less_same_day [of until now_kst] that f by simp
    ultimately show ?thesis using u by blast
  qed
  have B: "\<exists>since. get_report_range now_kst = Inr (since, replace_time now_kst REPORT_HOUR 0 0 0)"
    if "6 \<le> ordinal now_kst \<and> ordinal now_kst \<le> MAXORDINAL"
    using get_report_range_returns [of now_kst] that unfolding tf by simp
  from z A B show ?thesis by blast
qed

theorem friday_run_ends_today_witness:
  "weekday (datetime_of 2024 1 5 17 30 0 0 KST) = 4 \<and>
   days_until_friday (datetime_of 2024 1 5 17 30 0 0 KST) = 0 \<and>
   (\<exists>since. get_report_range (datetime_of 2024 1 5 17 30 0 0 KST) =
       Inr (since, datetime_of 2024 1 5 16 0 0 0 KST)) \<and>
   get_report_range (datetime_of 2024 1 5 9 0 0 0 KST) =
     get_report_range (datetime_of 2024 1 5 17 30 0 0 KST) \<and>
   dt_less (datetime_of 2024 1 5 16 0 0 0 KST) (datetime_of 2024 1 5 17 30 0 0 KST) \<and>
   dt_less (datetime_of 2024 1 5 9 0 0 0 KST) (datetime_of 2024 1 5 16 0 0 0 KST)"
proof -
  let ?now = "datetime_of 2024 1 5 17 30 0 0 KST"
  let ?early = "datetime_of 2024 1 5 9 0 0 0 KST"
  let ?e = "datetime_of 2024 1 5 16 0 0 0 KST"
  have w: "weekday ?now = 4" by code_simp
  have o: "6 \<le> ordinal ?now \<and> ordinal ?now \<le> MAXORDINAL" by code_simp
  have v: "valid_time ?now \<and> 16 < hour ?now" by code_simp
  have rp: "replace_time ?now REPORT_HOUR 0 0 0 = ?e"
    by (simp add: replace_time_def datetime_of_def REPORT_HOUR_def)
  have same: "ordinal ?early = ordinal ?now \<and> utcoffset ?early = utcoffset ?now"
    by (simp add: datetime_of_def)
  have lt: "dt_less ?early ?e" by code_simp
  note t = friday_run_ends_today [OF w]
  from t o obtain since where r: "get_report_range ?now = Inr (since, ?e)"
    unfolding rp by blast
  from t r same have "get_report_range ?early = Inr (since, ?e)" by blast
  moreover from t r v have "dt_less ?e ?now" by blast
  ultimately show ?thesis using w t r lt by simp
qed

subsection \<open>Printing the dates of the window\<close>

lemma dt_add_to:
  assumes "valid_time d'" "local_us d + delta = local_us d'"
  shows "dt_add d delta =
     (if 0 < ordinal d' \<and> ordinal d' \<le> MAXORDINAL
      then Inr (d'\<lparr>utcoffset := utcoffset d\<rparr>) else Inl OverflowError)"
proof -
  from local_us_split [OF assms(1)] obtain r where
    r: "local_us d' = ordinal d' * US_PER_DAY + r" "0 \<le> r" "r < US_PER_DAY"
       "r div 3600000000 = hour d'" "r div 60000000 mod 60 = minute d'"
       "r div 1000000 mod 60 = second d'" "r mod 1000000 = microsecond d'"
    by blast
  have "(local_us d + delta) div US_PER_DAY = ordinal d'"
    unfolding assms(2) r(1) by (rule div_step [OF r(2,3)])
  moreover have "(local_us d + delta) mod US_PER_DAY = r"
    unfolding assms(2) r(1) by (rule mod_step [OF r(2,3)])
  ultimately show ?thesis
    by (cases d') (simp add: dt_add_def Let_def r)
qed

lemma to_github_date_report_time:
  assumes "hour d = 16" "minute d = 0" "second d = 0" "microsecond d = 0" "utcoffset d = KST"
    "0 < ordinal d" "ordinal d \<le> MAXORDINAL"
  shows "to_github_date d = Inr (strftime_github (d\<lparr>hour := 7, utcoffset := UTC\<rparr>))"
proof -
  let ?u = "d\<lparr>hour := 7\<rparr>"
  have v: "valid_time ?u" by (simp add: valid_time_def assms)
  have "local_us d + - utcoffset d = local_us ?u"
    by (simp add: local_us_def assms KST_def timedelta_hours_def)
  from dt_add_to [OF v this] have 1: "dt_add d (- utcoffset d) = Inr ?u"
    using assms by (cases d) simp
  let ?z = "?u\<lparr>utcoffset := UTC\<rparr>"
  have vz: "valid_time ?z" by (simp add: valid_time_def assms)
  have "local_us ?z + UTC = local_us ?z" by (simp add: UTC_def)
  from dt_add_to [OF vz this] have 2: "dt_add ?z UTC = Inr ?z"
    using assms by simp
  have ne: "utcoffset d \<noteq> UTC" by (simp add: assms KST_def UTC_def timedelta_hours_def)
  show ?thesis
    unfolding to_github_date_def astimezone_def using ne by (simp add: 1 2)
qed

lemma window_dates_print:
  assumes "get_report_range now_kst = Inr (since, until)" "utcoffset now_kst = KST"
  shows "\<exists>a b. to_github_date since = Inr a \<and> to_github_date until = Inr b"
proof -
  note d = get_report_range_InrD [OF assms(1)]
  from assms(1) have r: "0 < ordinal (this_friday_of now_kst) - 7"
    "ordinal (this_friday_of now_kst) \<le> MAXORDINAL"
    by (auto simp: get_report_range_eq Let_def split: if_splits)
  have "to_github_date until = Inr (strftime_github (until\<lparr>hour := 7, utcoffset := UTC\<rparr>))"
    using r unfolding d(1)
    by (intro to_github_date_report_time) (simp_all add: this_friday_of_fields assms(2))
  moreover have "to_github_date since = Inr (strftime_github (since\<lparr>hour := 7, utcoffset := UTC\<rparr>))"
    using r unfolding d(2) d(1)
    by (intro to_github_date_report_time) (simp_all add: this_friday_of_fields assms(2))
  ultimately show ?thesis by blast
qed

subsection \<open>Totals of the counters\<close>

lemma sum_incr: "sum_list (values (incr d k n)) = sum_list (values d) + n"
  by (induction d k n rule: incr.induct) (simp_all add: values_def)

lemma sum_desc: "sum_list (values (desc d)) = sum_list (values d)"
proof -
  have "mset (map snd (desc d)) = mset (map snd d)"
    unfolding desc_def by (simp only: mset_map mset_sort)
  then have "sum_mset (mset (values (desc d))) = sum_mset (mset (values d))"
    by (simp only: values_def)
  then show ?thesis by (simp only: sum_mset_sum_list)
qed

lemma fold_count_pr_sums:
  "fold count_pr prs (a, b) = (a', b') \<Longrightarrow>
     sum_list (values a') = sum_list (values a) + int (length prs) \<and>
     sum_list (values b') = sum_list (values b) + int (length prs)"
proof (induction prs arbitrary: a b)
  case Nil
  then show ?case by simp
next
  case (Cons pr prs)
  have step: "count_pr pr (a, b) =
      (incr a (repository_name pr) 1, incr b (login_or_ghost (author_login pr)) 1)"
    by (simp add: count_pr_def)
  from Cons.prems have "fold count_pr prs (count_pr pr (a, b)) = (a', b')" by simp
  from Cons.IH [OF this [unfolded step]] show ?case by (simp add: sum_incr)
qed

lemma count_review_sums:
  "count_review s u repo rv (a, b) = (a', b') \<Longrightarrow>
     sum_list (values a') - sum_list (values a) = sum_list (values b') - sum_list (values b)"
  by (auto simp: count_review_def Let_def sum_incr split: if_splits)

lemma fold_count_review_sums:
  "fold (count_review s u repo) rvs (a, b) = (a', b') \<Longrightarrow>
     sum_list (values a') - sum_list (values a) = sum_list (values b') - sum_list (values b)"
proof (induction rvs arbitrary: a b)
  case Nil
  then show ?case by simp
next
  case (Cons rv rvs)
  obtain a1 b1 where 1: "count_review s u repo rv (a, b) = (a1, b1)"
    by (cases "count_review s u repo rv (a, b)")
  with Cons.prems have "fold (count_review s u repo) rvs (a1, b1) = (a', b')" by simp
  from Cons.IH [OF this] count_review_sums [OF 1] show ?case by linarith
qed

lemma fold_count_reviews_sums:
  "fold (count_reviews s u) prs (a, b) = (a', b') \<Longrightarrow>
     sum_list (values a') - sum_list (values a) = sum_list (values b') - sum_list (values b)"
proof (induction prs arbitrary: a b)
  case Nil
  then show ?case by simp
next
  case (Cons pr prs)
  obtain a1 b1 where 1: "count_reviews s u pr (a, b) = (a1, b1)"
    by (cases "count_reviews s u pr (a, b)")
  with Cons.prems have "fold (count_reviews s u) prs (a1, b1) = (a', b')" by simp
  from Cons.IH [OF this] fold_count_review_sums [OF 1 [unfolded count_reviews_def]]
  show ?case by linarith
qed

lemma aggregate_Inr:
  assumes "to_github_date since = Inr s" "to_github_date until = Inr u"
  shows "aggregate created_prs updated_prs since until =
     Inr \<lparr>total_prs = sum_list (values (fst (fold count_pr created_prs ([], [])))),
          total_comments = sum_list (values (fst (fold (count_reviews s u) updated_prs ([], [])))),
          pr_by_repo = desc (fst (fold count_pr created_prs ([], []))),
          pr_by_person = desc (snd (fold count_pr created_prs ([], []))),
          comments_by_repo = desc (fst (fold (count_reviews s u) updated_prs ([], []))),
          comments_by_person = desc (snd (fold (count_reviews s u) updated_prs ([], [])))\<rparr>"
  unfolding aggregate_def by (simp add: assms split: prod.split)

lemma aggregate_InrD:
  assumes "aggregate created_prs updated_prs since until = Inr st"
  shows "\<exists>s u. to_github_date since = Inr s \<and> to_github_date until = Inr u"
  using assms unfolding aggregate_def by (auto split: prod.splits sum.splits)

text \<open>
  Claim C5. In every result of \<open>aggregate\<close> the pull-request counts by repository and by
  person both add up to \<open>total_prs\<close>, which is the number of created records, and the
  comment counts by repository and by person both add up to \<open>total_comments\<close>. A result
  is returned for every window of the resolver.
\<close>

theorem aggregate_totals_agree:
  "(\<forall>st. aggregate created_prs updated_prs since until = Inr st \<longrightarrow>
      sum_list (values (pr_by_repo st)) = total_prs st \<and>
      sum_list (values (pr_by_person st)) = total_prs st \<and>
      total_prs st = int (length created_prs) \<and>
      sum_list (values (comments_by_repo st)) = total_comments st \<and>
      sum_list (values (comments_by_person st)) = total_comments st) \<and>
   (\<forall>now_kst. utcoffset now_kst = KST \<and> get_report_range now_kst = Inr (since, until) \<longrightarrow>
      (\<exists>st. aggregate created_prs updated_prs since until = Inr st))"
proof -
  have A: "sum_list (values (pr_by_repo st)) = total_prs st \<and>
      sum_list (values (pr_by_person st)) = total_prs st \<and>
      total_prs st = int (length created_prs) \<and>
      sum_list (values (comments_by_repo st)) = total_comments st \<and>
      sum_list (values (comments_by_person st)) = total_comments st"
    if r: "aggregate created_prs updated_prs since until = Inr st" for st
  proof -
    from aggregate_InrD [OF r] obtain s u where
      su: "to_github_date since = Inr s" "to_github_date until = Inr u" by blast
    obtain p1 p2 where p: "fold count_pr created_prs ([], []) = (p1, p2)"
      by (cases "fold count_pr created_prs ([], [])")
    obtain c1 c2 where c: "fold (count_reviews s u) updated_prs ([], []) = (c1, c2)"
      by (cases "fold (count_reviews s u) updated_prs ([], [])")
    have st: "st = \<lparr>total_prs = sum_list (values p1), total_comments = sum_list (values c1),
        pr_by_repo = desc p1, pr_by_person = desc p2,
        comments_by_repo = desc c1, comments_by_person = desc c2\<rparr>"
      using r unfolding aggregate_Inr [OF su] p c by simp
    from fold_count_pr_sums [OF p] have ps: "sum_list (values p1) = int (length created_prs)"
      "sum_list (values p2) = int (length created_prs)" by (simp_all add: values_def)
    from fold_count_reviews_sums [OF c] have cs: "sum_list (values c1) = sum_list (values c2)"
      by (simp add: values_def)
    show ?thesis unfolding st by (simp add: sum_desc ps cs)
  qed
  have B: "\<exists>st. aggregate created_prs updated_prs since until = Inr st"
    if "utcoffset now_kst = KST \<and> get_report_range now_kst = Inr (since, until)" for now_kst
  proof -
    from window_dates_print [of now_kst since until] that obtain a b where
      "to_github_date since = Inr a" "to_github_date until = Inr b" by blast
    from aggregate_Inr [OF this] show ?thesis by blast
  qed
  from A B show ?thesis by blast
qed

theorem aggregate_totals_agree_witness:
  "\<exists>st. aggregate
       [\<lparr>repository_name = ''x'', author_login = Some ''alice'', reviews = None\<rparr>,
        \<lparr>repository_name = ''y'', author_login = None, reviews = None\<rparr>]
       [\<lparr>repository_name = ''x'', author_login = None, reviews = Some
          [\<lparr>review_author = Some ''bob'', createdAt = Some ''2024-01-08T10:00:00Z'',
            totalCount = 3\<rparr>]\<rparr>]
       (datetime_of 2024 1 5 16 0 0 0 KST) (datetime_of 2024 1 12 16 0 0 0 KST) = Inr st \<and>
     sum_list (values (pr_by_repo st)) = 2 \<and> sum_list (values (pr_by_person st)) = 2 \<and>
     total_prs st = 2 \<and>
     sum_list (values (comments_by_repo st)) = total_comments st \<and>
     sum_list (values (comments_by_person st)) = total_comments st"
proof -
  let ?now = "datetime_of 2024 1 10 9 30 0 0 KST"
  let ?since = "datetime_of 2024 1 5 16 0 0 0 KST"
  let ?until = "datetime_of 2024 1 12 16 0 0 0 KST"
  have k: "utcoffset ?now = KST" by (simp add: datetime_of_def)
  have r: "get_report_range ?now = Inr (?since, ?until)" by code_simp
  note t = aggregate_totals_agree [of _ _ ?since ?until]
  from t k r obtain st where "aggregate
       [\<lparr>repository_name = ''x'', author_login = Some ''alice'', reviews = None\<rparr>,
        \<lparr>repository_name = ''y'', author_login = None, reviews = None\<rparr>]
       [\<lparr>repository_name = ''x'', author_login = None, reviews = Some
          [\<lparr>review_author = Some ''bob'', createdAt = Some ''2024-01-08T10:00:00Z'',
            totalCount = 3\<rparr>]\<rparr>] ?since ?until = Inr st"
    by blast
  with t show ?thesis by fastforce
qed

subsection \<open>A sample window\<close>

lemmas calendar_defs =
  datetime_of_def ymd2ord_def days_before_year_def days_before_month_def is_leap_def
  ord2ymd_def DAYS_BEFORE_MONTH_def DAYS_IN_MONTH_def Let_def

lemmas to_github_date_defs =
  to_github_date_def astimezone_def dt_add_def local_us_def KST_def UTC_def
  timedelta_hours_def strftime_github_def pad2_def pad4_def show_nat.simps calendar_defs

lemma sample_since:
  "to_github_date (datetime_of 2024 1 5 16 0 0 0 KST) = Inr ''2024-01-05T07:00:00Z''"
  by (simp add: to_github_date_defs)

lemma sample_until:
  "to_github_date (datetime_of 2024 1 12 16 0 0 0 KST) = Inr ''2024-01-12T07:00:00Z''"
  by (simp add: to_github_date_defs)

lemma sample_inside:
  "(''2024-01-05T07:00:00Z'' :: string) \<le> ''2024-01-08T10:00:00Z''"
  "(''2024-01-08T10:00:00Z'' :: string) \<le> ''2024-01-12T07:00:00Z''"
  by code_simp+

lemma sample_before: "(''2024-01-04T23:59:59Z'' :: string) < ''2024-01-05T07:00:00Z''"
  by code_simp

subsection \<open>The end-to-end scenario\<close>

text \<open>
  Claim C6. Two created records of repository \<open>x\<close>, one by \<open>alice\<close> and one without an
  author, and one review-bearing record of \<open>x\<close> with two reviews by \<open>bob\<close>, one of 3
  comments created inside the window and one of 9 comments created before its start:
  the null author is counted as \<open>ghost\<close> and the 9 comments are left out.
\<close>

theorem aggregate_scenario:
  assumes "to_github_date since = Inr s" "to_github_date until = Inr u"
    and "s \<le> inside" "inside \<le> u" "before < s"
  shows "aggregate
       [\<lparr>repository_name = ''x'', author_login = Some ''alice'', reviews = r1\<rparr>,
        \<lparr>repository_name = ''x'', author_login = None, reviews = r2\<rparr>]
       [\<lparr>repository_name = ''x'', author_login = a, reviews = Some
          [\<lparr>review_author = Some ''bob'', createdAt = Some inside, totalCount = 3\<rparr>,
           \<lparr>review_author = Some ''bob'', createdAt = Some before, totalCount = 9\<rparr>]\<rparr>]
       since until =
     Inr \<lparr>total_prs = 2, total_comments = 3,
          pr_by_repo = [(''x'', 2)],
          pr_by_person = [(''alice'', 1), (''ghost'', 1)],
          comments_by_repo = [(''x'', 3)],
          comments_by_person = [(''bob'', 3)]\<rparr>"
proof -
  from assms(5) have n: "\<not> s \<le> before" by simp
  show ?thesis
    unfolding aggregate_Inr [OF assms(1,2)]
    by (simp add: count_pr_def count_reviews_def count_review_def review_nodes_def
        get_createdAt_def login_or_ghost_def values_def desc_def assms(3,4) n)
qed

theorem aggregate_scenario_witness:
  "aggregate
       [\<lparr>repository_name = ''x'', author_login = Some ''alice'', reviews = None\<rparr>,
        \<lparr>repository_name = ''x'', author_login = None, reviews = None\<rparr>]
       [\<lparr>repository_name = ''x'', author_login = None, reviews = Some
          [\<lparr>review_author = Some ''bob'', createdAt = Some ''2024-01-08T10:00:00Z'',
            totalCount = 3\<rparr>,
           \<lparr>review_author = Some ''bob'', createdAt = Some ''2024-01-04T23:59:59Z'',
            totalCount = 9\<rparr>]\<rparr>]
       (datetime_of 2024 1 5 16 0 0 0 KST) (datetime_of 2024 1 12 16 0 0 0 KST) =
     Inr \<lparr>total_prs = 2, total_comments = 3,
          pr_by_repo = [(''x'', 2)],
          pr_by_person = [(''alice'', 1), (''ghost'', 1)],
          comments_by_repo = [(''x'', 3)],
          comments_by_person = [(''bob'', 3)]\<rparr>"
  by (rule aggregate_scenario [OF sample_since sample_until sample_inside sample_before])

subsection \<open>What the comment counters hold\<close>

lemma count_at_incr:
  "count_at (incr d k n) k' = count_at d k' + (if k' = k then n else 0)"
  by (induction d k n rule: incr.induct) (auto simp: count_at_def)

lemma keys_incr: "set (map fst (incr d k n)) = insert k (set (map fst d))"
  by (induction d k n rule: incr.induct) auto

lemma distinct_incr: "distinct (map fst d) \<Longrightarrow> distinct (map fst (incr d k n))"
proof (induction d k n rule: incr.induct)
  case (1 k n)
  then show ?case by simp
next
  case (2 k' v d k n)
  then show ?case using keys_incr [of d k n] by auto
qed

lemma count_at_desc:
  assumes "distinct (map fst d)"
  shows "count_at (desc d) k = count_at d k"
proof -
  have m: "mset (desc d) = mset d" by (simp add: desc_def)
  then have "mset (map fst (desc d)) = mset (map fst d)" by (simp only: mset_map)
  with assms have "distinct (map fst (desc d))"
    by (metis mset_eq_imp_distinct_iff)
  moreover have "set (desc d) = set d" using m by (rule mset_eq_setD)
  ultimately have "map_of (desc d) = map_of d"
    using assms by (simp add: map_of_inject_set)
  then show ?thesis by (simp add: count_at_def)
qed

lemma count_review_eq:
  "count_review s u repo rv (a, b) =
     (if in_window s u rv
      then (incr a repo (totalCount rv),
            incr b (login_or_ghost (review_author rv)) (totalCount rv))
      else (a, b))"
  by (simp add: count_review_def in_window_def Let_def)

lemma count_review_skip: "\<not> in_window s u rv \<Longrightarrow> count_review s u repo rv acc = acc"
  by (cases acc) (simp add: count_review_eq)

lemma contribution_eq: "contribution s u rv = (if in_window s u rv then totalCount rv else 0)"
  by (simp add: contribution_def in_window_def)

lemma fold_count_review_filter:
  "fold (count_review s u repo) (filter (in_window s u) rvs) acc =
   fold (count_review s u repo) rvs acc"
  by (induction rvs arbitrary: acc) (simp_all add: count_review_skip)

lemma count_reviews_keep:
  "count_reviews s u (keep_reviews (in_window s u) pr) acc = count_reviews s u pr acc"
  by (cases "reviews pr")
     (simp_all add: count_reviews_def keep_reviews_def review_nodes_def fold_count_review_filter)

lemma fold_count_reviews_keep:
  "fold (count_reviews s u) (map (keep_reviews (in_window s u)) prs) acc =
   fold (count_reviews s u) prs acc"
  by (induction prs arbitrary: acc) (simp_all add: count_reviews_keep)

lemma fold_count_review_distinct:
  "distinct (map fst a) \<Longrightarrow> distinct (map fst b) \<Longrightarrow>
   distinct (map fst (fst (fold (count_review s u repo) rvs (a, b)))) \<and>
   distinct (map fst (snd (fold (count_review s u repo) rvs (a, b))))"
proof (induction rvs arbitrary: a b)
  case Nil
  then show ?case by simp
next
  case (Cons rv rvs)
  show ?case
  proof (cases "in_window s u rv")
    case True
    then show ?thesis
      using Cons.IH [OF distinct_incr [OF Cons.prems(1)] distinct_incr [OF Cons.prems(2)]]
      by (simp add: count_review_eq)
  next
    case False
    then show ?thesis using Cons by (simp add: count_review_eq)
  qed
qed

lemma fold_count_reviews_distinct:
  "distinct (map fst a) \<Longrightarrow> distinct (map fst b) \<Longrightarrow>
   distinct (map fst (fst (fold (count_reviews s u) prs (a, b)))) \<and>
   distinct (map fst (snd (fold (count_reviews s u) prs (a, b))))"
proof (induction prs arbitrary: a b)
  case Nil
  then show ?case by simp
next
  case (Cons pr prs)
  obtain a1 b1 where 1: "count_reviews s u pr (a, b) = (a1, b1)"
    by (cases "count_reviews s u pr (a, b)")
  from fold_count_review_distinct [OF Cons.prems, of s u "repository_name pr" "review_nodes pr"]
  have "distinct (map fst a1)" "distinct (map fst b1)"
    using 1 by (simp_all add: count_reviews_def)
  from Cons.IH [OF this] show ?case by (simp add: 1)
qed

lemma fold_count_review_repo:
  "count_at (fst (fold (count_review s u repo) rvs (a, b))) k =
     count_at a k + (if k = repo then (\<Sum>rv\<leftarrow>rvs. contribution s u rv) else 0)"
proof (cases "k = repo")
  case True
  have "count_at (fst (fold (count_review s u repo) rvs (a, b))) repo =
      count_at a repo + (\<Sum>rv\<leftarrow>rvs. contribution s u rv)"
    by (induction rvs arbitrary: a b)
       (simp_all add: count_review_eq count_at_incr contribution_eq)
  with True show ?thesis by simp
next
  case False
  have "count_at (fst (fold (count_review s u repo) rvs (a, b))) k = count_at a k"
    using False
    by (induction rvs arbitrary: a b)
       (simp_all add: count_review_eq count_at_incr)
  with False show ?thesis by simp
qed

lemma fold_count_review_person:
  "count_at (snd (fold (count_review s u repo) rvs (a, b))) who =
     count_at b who +
     (\<Sum>rv\<leftarrow>rvs. if login_or_ghost (review_author rv) = who then contribution s u rv else 0)"
  by (induction rvs arbitrary: a b)
     (simp_all add: count_review_eq count_at_incr contribution_eq)

lemma fold_count_reviews_repo:
  "count_at (fst (fold (count_reviews s u) prs (a, b))) k =
     count_at a k +
     (\<Sum>pr\<leftarrow>prs. if repository_name pr = k
        then (\<Sum>rv\<leftarrow>review_nodes pr. contribution s u rv) else 0)"
proof (induction prs arbitrary: a b)
  case Nil
  show ?case by simp
next
  case (Cons pr prs)
  obtain a1 b1 where 1:
    "fold (count_review s u (repository_name pr)) (review_nodes pr) (a, b) = (a1, b1)"
    by (cases "fold (count_review s u (repository_name pr)) (review_nodes pr) (a, b)")
  then have step: "count_reviews s u pr (a, b) = (a1, b1)"
    by (simp add: count_reviews_def)
  have "count_at a1 k = count_at a k +
      (if k = repository_name pr then (\<Sum>rv\<leftarrow>review_nodes pr. contribution s u rv) else 0)"
    using fold_count_review_repo [of s u "repository_name pr" "review_nodes pr" a b k]
    unfolding 1 by simp
  then show ?case
    by (simp add: step Cons.IH)
qed

lemma fold_count_reviews_person:
  "count_at (snd (fold (count_reviews s u) prs (a, b))) who =
     count_at b who +
     (\<Sum>pr\<leftarrow>prs. \<Sum>rv\<leftarrow>review_nodes pr.
        if login_or_ghost (review_author rv) = who then contribution s u rv else 0)"
proof (induction prs arbitrary: a b)
  case Nil
  show ?case by simp
next
  case (Cons pr prs)
  obtain a1 b1 where 1:
    "fold (count_review s u (repository_name pr)) (review_nodes pr) (a, b) = (a1, b1)"
    by (cases "fold (count_review s u (repository_name pr)) (review_nodes pr) (a, b)")
  then have step: "count_reviews s u pr (a, b) = (a1, b1)"
    by (simp add: count_reviews_def)
  have "count_at b1 who = count_at b who +
      (\<Sum>rv\<leftarrow>review_nodes pr.
         if login_or_ghost (review_author rv) = who then contribution s u rv else 0)"
    using fold_count_review_person [of s u "repository_name pr" "review_nodes pr" a b who]
    unfolding 1 by simp
  then show ?case
    by (simp add: step Cons.IH)
qed

lemma contribution_fun:
  "contribution s u =
     (\<lambda>rv. if s \<le> get_createdAt rv \<and> get_createdAt rv \<le> u then totalCount rv else 0)"
  by (rule ext) (simp add: contribution_def)

lemma fold_count_pr_Nil: "fold count_pr [] ([], []) = ([], [])"
  by simp

lemma count_at_Nil: "count_at [] k = 0"
  by (simp add: count_at_def)

lemma aggregate_keep_in_window:
  "aggregate created_prs (map (keep_reviews (in_window s u)) updated_prs) since until =
   aggregate created_prs updated_prs since until"
  if "to_github_date since = Inr s" "to_github_date until = Inr u"
  unfolding aggregate_Inr [OF that] fold_count_reviews_keep ..

lemma aggregate_single_review:
  assumes "to_github_date since = Inr s" "to_github_date until = Inr u"
  shows "aggregate [] [\<lparr>repository_name = repo, author_login = a, reviews = Some [rv]\<rparr>]
       since until =
     Inr (if in_window s u rv
          then \<lparr>total_prs = 0, total_comments = totalCount rv,
                pr_by_repo = [], pr_by_person = [],
                comments_by_repo = [(repo, totalCount rv)],
                comments_by_person = [(login_or_ghost (review_author rv), totalCount rv)]\<rparr>
          else \<lparr>total_prs = 0, total_comments = 0, pr_by_repo = [], pr_by_person = [],
                comments_by_repo = [], comments_by_person = []\<rparr>)"
  unfolding aggregate_Inr [OF assms]
  by (simp add: count_reviews_def review_nodes_def count_review_eq values_def desc_def)

text \<open>
  Claim C1. For a window whose bounds print as \<open>s\<close> and \<open>u\<close>, every comment counter of
  the result holds, for each key, the sum of the comment counts of exactly those reviews
  whose \<open>createdAt\<close> string satisfies \<open>s \<le> createdAt \<le> u\<close>; the reviews outside can be
  removed from the input without changing the result. A single review strictly outside
  the window leaves all comment counters empty, and one created at exactly \<open>s\<close> or at
  exactly \<open>u\<close> is counted.
\<close>

theorem review_counted_iff_in_window:
  assumes "to_github_date since = Inr s" "to_github_date until = Inr u"
  shows "\<exists>st. aggregate created_prs updated_prs since until = Inr st \<and>
    (\<forall>repo. count_at (comments_by_repo st) repo =
       (\<Sum>pr\<leftarrow>updated_prs. if repository_name pr = repo
          then (\<Sum>rv\<leftarrow>review_nodes pr.
                  if s \<le> get_createdAt rv \<and> get_createdAt rv \<le> u then totalCount rv else 0)
          else 0)) \<and>
    (\<forall>who. count_at (comments_by_person st) who =
       (\<Sum>pr\<leftarrow>updated_prs. \<Sum>rv\<leftarrow>review_nodes pr.
          if login_or_ghost (review_author rv) = who
          then (if s \<le> get_createdAt rv \<and> get_createdAt rv \<le> u then totalCount rv else 0)
          else 0)) \<and>
    aggregate created_prs
      (map (keep_reviews (\<lambda>rv. s \<le> get_createdAt rv \<and> get_createdAt rv \<le> u)) updated_prs)
      since until = Inr st \<and>
    (\<forall>repo a rv. get_createdAt rv < s \<or> u < get_createdAt rv \<longrightarrow>
       aggregate [] [\<lparr>repository_name = repo, author_login = a, reviews = Some [rv]\<rparr>]
         since until =
       Inr \<lparr>total_prs = 0, total_comments = 0, pr_by_repo = [], pr_by_person = [],
            comments_by_repo = [], comments_by_person = []\<rparr>) \<and>
    (s \<le> u \<longrightarrow>
      (\<forall>repo a rv. get_createdAt rv = s \<or> get_createdAt rv = u \<longrightarrow>
         aggregate [] [\<lparr>repository_name = repo, author_login = a, reviews = Some [rv]\<rparr>]
           since until =
         Inr \<lparr>total_prs = 0, total_comments = totalCount rv,
              pr_by_repo = [], pr_by_person = [],
              comments_by_repo = [(repo, totalCount rv)],
              comments_by_person = [(login_or_ghost (review_author rv), totalCount rv)]\<rparr>))"
proof -
  let ?c = "fold (count_reviews s u) updated_prs ([], [])"
  let ?st = "\<lparr>total_prs = sum_list (values (fst (fold count_pr created_prs ([], [])))),
          total_comments = sum_list (values (fst ?c)),
          pr_by_repo = desc (fst (fold count_pr created_prs ([], []))),
          pr_by_person = desc (snd (fold count_pr created_prs ([], []))),
          comments_by_repo = desc (fst ?c),
          comments_by_person = desc (snd ?c)\<rparr>"
  have r: "aggregate created_prs updated_prs since until = Inr ?st"
    by (rule aggregate_Inr [OF assms])
  have d: "distinct (map fst (fst ?c))" "distinct (map fst (snd ?c))"
    using fold_count_reviews_distinct [of "[]" "[]" s u updated_prs] by simp_all
  have w: "in_window s u = (\<lambda>rv. s \<le> get_createdAt rv \<and> get_createdAt rv \<le> u)"
    by (rule ext) (simp add: in_window_def)
  have 1: "count_at (comments_by_repo ?st) repo =
       (\<Sum>pr\<leftarrow>updated_prs. if repository_name pr = repo
          then (\<Sum>rv\<leftarrow>review_nodes pr.
                  if s \<le> get_createdAt rv \<and> get_createdAt rv \<le> u then totalCount rv else 0)
          else 0)" for repo
    using fold_count_reviews_repo [of s u updated_prs "[]" "[]" repo, unfolded contribution_fun]
    by (simp add: count_at_desc [OF d(1)] count_at_Nil)
  have 2: "count_at (comments_by_person ?st) who =
       (\<Sum>pr\<leftarrow>updated_prs. \<Sum>rv\<leftarrow>review_nodes pr.
          if login_or_ghost (review_author rv) = who
          then (if s \<le> get_createdAt rv \<and> get_createdAt rv \<le> u then totalCount rv else 0)
          else 0)" for who
    using fold_count_reviews_person [of s u updated_prs "[]" "[]" who, unfolded contribution_fun]
    by (simp add: count_at_desc [OF d(2)] count_at_Nil)
  have 3: "aggregate created_prs
      (map (keep_reviews (\<lambda>rv. s \<le> get_createdAt rv \<and> get_createdAt rv \<le> u)) updated_prs)
      since until = Inr ?st"
    using aggregate_keep_in_window [OF assms, of created_prs updated_prs] r
    unfolding w by simp
  have 4: "aggregate [] [\<lparr>repository_name = repo, author_login = a, reviews = Some [rv]\<rparr>]
         since until =
       Inr \<lparr>total_prs = 0, total_comments = 0, pr_by_repo = [], pr_by_person = [],
            comments_by_repo = [], comments_by_person = []\<rparr>"
    if "get_createdAt rv < s \<or> u < get_createdAt rv" for repo a rv
  proof -
    from that have "\<not> in_window s u rv" by (auto simp: in_window_def)
    then show ?thesis by (simp add: aggregate_single_review [OF assms])
  qed
  have 5: "aggregate [] [\<lparr>repository_name = repo, author_login = a, reviews = Some [rv]\<rparr>]
           since until =
         Inr \<lparr>total_prs = 0, total_comments = totalCount rv,
              pr_by_repo = [], pr_by_person = [],
              comments_by_repo = [(repo, totalCount rv)],
              comments_by_person = [(login_or_ghost (review_author rv), totalCount rv)]\<rparr>"
    if "s \<le> u" "get_createdAt rv = s \<or> get_createdAt rv = u" for repo a rv
  proof -
    from that have "in_window s u rv" by (auto simp: in_window_def)
    then show ?thesis by (simp add: aggregate_single_review [OF assms])
  qed
  from r 1 2 3 4 5 show ?thesis by blast
qed

lemma sample_bounds:
  "(''2024-01-05T07:00:00Z'' :: string) \<le> ''2024-01-12T07:00:00Z''"
  "\<not> (''2024-01-12T07:00:01Z'' :: string) \<le> ''2024-01-12T07:00:00Z''"
  "(''2024-01-12T07:00:00Z'' :: string) < ''2024-01-12T07:00:01Z''"
  by code_simp+

theorem review_counted_iff_in_window_witness:
  "\<exists>st. aggregate []
       [\<lparr>repository_name = ''x'', author_login = None, reviews = Some
          [\<lparr>review_author = Some ''bob'', createdAt = Some ''2024-01-05T07:00:00Z'',
            totalCount = 1\<rparr>,
           \<lparr>review_author = Some ''bob'', createdAt = Some ''2024-01-12T07:00:00Z'',
            totalCount = 2\<rparr>,
           \<lparr>review_author = Some ''bob'', createdAt = Some ''2024-01-12T07:00:01Z'',
            totalCount = 4\<rparr>]\<rparr>]
       (datetime_of 2024 1 5 16 0 0 0 KST) (datetime_of 2024 1 12 16 0 0 0 KST) = Inr st \<and>
     count_at (comments_by_repo st) ''x'' = 3 \<and>
     count_at (comments_by_person st) ''bob'' = 3 \<and>
     aggregate []
       [\<lparr>repository_name = ''x'', author_login = None, reviews = Some
          [\<lparr>review_author = None, createdAt = Some ''2024-01-12T07:00:01Z'',
            totalCount = 4\<rparr>]\<rparr>]
       (datetime_of 2024 1 5 16 0 0 0 KST) (datetime_of 2024 1 12 16 0 0 0 KST) =
     Inr \<lparr>total_prs = 0, total_comments = 0, pr_by_repo = [], pr_by_person = [],
          comments_by_repo = [], comments_by_person = []\<rparr> \<and>
     aggregate []
       [\<lparr>repository_name = ''x'', author_login = None, reviews = Some
          [\<lparr>review_author = None, createdAt = Some ''2024-01-12T07:00:00Z'',
            totalCount = 2\<rparr>]\<rparr>]
       (datetime_of 2024 1 5 16 0 0 0 KST) (datetime_of 2024 1 12 16 0 0 0 KST) =
     Inr \<lparr>total_prs = 0, total_comments = 2, pr_by_repo = [], pr_by_person = [],
          comments_by_repo = [(''x'', 2)], comments_by_person = [(''ghost'', 2)]\<rparr>"
proof -
  let ?prs = "[\<lparr>repository_name = ''x'', author_login = None, reviews = Some
          [\<lparr>review_author = Some ''bob'', createdAt = Some ''2024-01-05T07:00:00Z'',
            totalCount = 1\<rparr>,
           \<lparr>review_author = Some ''bob'', createdAt = Some ''2024-01-12T07:00:00Z'',
            totalCount = 2\<rparr>,
           \<lparr>review_author = Some ''bob'', createdAt = Some ''2024-01-12T07:00:01Z'',
            totalCount = 4\<rparr>]\<rparr>]"
  let ?out = "\<lparr>review_author = None, createdAt = Some ''2024-01-12T07:00:01Z'', totalCount = 4\<rparr>"
  let ?edge = "\<lparr>review_author = None, createdAt = Some ''2024-01-12T07:00:00Z'', totalCount = 2\<rparr>"
  note t = review_counted_iff_in_window [OF sample_since sample_until, of "[]" ?prs]
  then obtain st where
    r: "aggregate [] ?prs (datetime_of 2024 1 5 16 0 0 0 KST)
          (datetime_of 2024 1 12 16 0 0 0 KST) = Inr st"
    and x: "count_at (comments_by_repo st) ''x'' =
       (\<Sum>pr\<leftarrow>?prs. if repository_name pr = ''x''
          then (\<Sum>rv\<leftarrow>review_nodes pr.
                  if ''2024-01-05T07:00:00Z'' \<le> get_createdAt rv \<and>
                     get_createdAt rv \<le> ''2024-01-12T07:00:00Z'' then totalCount rv else 0)
          else 0)"
    and b: "count_at (comments_by_person st) ''bob'' =
       (\<Sum>pr\<leftarrow>?prs. \<Sum>rv\<leftarrow>review_nodes pr.
          if login_or_ghost (review_author rv) = ''bob''
          then (if ''2024-01-05T07:00:00Z'' \<le> get_createdAt rv \<and>
                   get_createdAt rv \<le> ''2024-01-12T07:00:00Z'' then totalCount rv else 0)
          else 0)"
    by blast
  have out: "get_createdAt ?out < ''2024-01-05T07:00:00Z'' \<or>
      ''2024-01-12T07:00:00Z'' < get_createdAt ?out"
    by (simp add: get_createdAt_def sample_bounds)
  have edge: "get_createdAt ?edge = ''2024-01-05T07:00:00Z'' \<or>
      get_createdAt ?edge = ''2024-01-12T07:00:00Z''"
    by (simp add: get_createdAt_def)
  from t out have o: "aggregate []
       [\<lparr>repository_name = ''x'', author_login = None, reviews = Some [?out]\<rparr>]
       (datetime_of 2024 1 5 16 0 0 0 KST) (datetime_of 2024 1 12 16 0 0 0 KST) =
     Inr \<lparr>total_prs = 0, total_comments = 0, pr_by_repo = [], pr_by_person = [],
          comments_by_repo = [], comments_by_person = []\<rparr>"
    by blast
  from t edge sample_bounds(1) have e: "aggregate []
       [\<lparr>repository_name = ''x'', author_login = None, reviews = Some [?edge]\<rparr>]
       (datetime_of 2024 1 5 16 0 0 0 KST) (datetime_of 2024 1 12 16 0 0 0 KST) =
     Inr \<lparr>total_prs = 0, total_comments = totalCount ?edge, pr_by_repo = [], pr_by_person = [],
          comments_by_repo = [(''x'', totalCount ?edge)],
          comments_by_person = [(login_or_ghost (review_author ?edge), totalCount ?edge)]\<rparr>"
    by blast
  have x3: "count_at (comments_by_repo st) ''x'' = 3"
    unfolding x by (simp add: review_nodes_def get_createdAt_def sample_bounds)
  have b3: "count_at (comments_by_person st) ''bob'' = 3"
    unfolding b by (simp add: review_nodes_def get_createdAt_def login_or_ghost_def sample_bounds)
  from r x3 b3 o e show ?thesis by (simp add: login_or_ghost_def)
qed

subsection \<open>A review without a timestamp\<close>

lemma strftime_github_not_empty: "strftime_github d \<noteq> []"
  by (simp add: strftime_github_def split: prod.split)

lemma to_github_date_not_empty: "to_github_date d = Inr s \<Longrightarrow> s \<noteq> []"
  by (auto simp: to_github_date_def strftime_github_not_empty split: sum.splits)

lemma not_le_empty: "s \<noteq> [] \<Longrightarrow> \<not> s \<le> ([] :: string)"
  by simp

lemma count_reviews_drop:
  assumes "\<not> in_window s u rv"
  shows "count_reviews s u (pr\<lparr>reviews := Some (rs1 @ rv # rs2)\<rparr>) acc =
         count_reviews s u (pr\<lparr>reviews := Some (rs1 @ rs2)\<rparr>) acc"
  by (simp add: count_reviews_def review_nodes_def count_review_skip [OF assms])

text \<open>
  Claim C10. A review whose \<open>createdAt\<close> is absent is read as the empty string, which is
  below every printed window start, so the review is skipped: with the review or
  without it, \<open>aggregate\<close> gives the same outcome, and for a window of the resolver that
  outcome is a result, not a failure.
\<close>

theorem review_without_timestamp_skipped:
  assumes "createdAt rv = None"
  shows "get_createdAt rv = [] \<and>
    (\<forall>s u. to_github_date since = Inr s \<longrightarrow>
       \<not> (s \<le> get_createdAt rv \<and> get_createdAt rv \<le> u)) \<and>
    aggregate created_prs
      (prs1 @ pr\<lparr>reviews := Some (rs1 @ rv # rs2)\<rparr> # prs2) since until =
    aggregate created_prs
      (prs1 @ pr\<lparr>reviews := Some (rs1 @ rs2)\<rparr> # prs2) since until \<and>
    (\<forall>now_kst. utcoffset now_kst = KST \<and> get_report_range now_kst = Inr (since, until) \<longrightarrow>
       (\<exists>st. aggregate created_prs
          (prs1 @ pr\<lparr>reviews := Some (rs1 @ rv # rs2)\<rparr> # prs2) since until = Inr st))"
proof -
  have e: "get_createdAt rv = []" using assms by (simp add: get_createdAt_def)
  have n: "\<not> (s \<le> get_createdAt rv \<and> get_createdAt rv \<le> u)"
    if "to_github_date since = Inr s" for s u
    using to_github_date_not_empty [OF that] unfolding e by simp
  have eq: "aggregate created_prs
      (prs1 @ pr\<lparr>reviews := Some (rs1 @ rv # rs2)\<rparr> # prs2) since until =
    aggregate created_prs
      (prs1 @ pr\<lparr>reviews := Some (rs1 @ rs2)\<rparr> # prs2) since until"
  proof (cases "to_github_date since")
    case (Inl x)
    then show ?thesis by (simp add: aggregate_def split: prod.split)
  next
    case s: (Inr s)
    show ?thesis
    proof (cases "to_github_date until")
      case (Inl x)
      then show ?thesis by (simp add: aggregate_def s split: prod.split)
    next
      case u: (Inr u)
      from n [OF s] have "\<not> in_window s u rv" by (simp add: in_window_def)
      from count_reviews_drop [OF this] show ?thesis
        unfolding aggregate_Inr [OF s u] by simp
    qed
  qed
  have tot: "\<exists>st. aggregate created_prs
          (prs1 @ pr\<lparr>reviews := Some (rs1 @ rv # rs2)\<rparr> # prs2) since until = Inr st"
    if "utcoffset now_kst = KST \<and> get_report_range now_kst = Inr (since, until)" for now_kst
  proof -
    from window_dates_print [of now_kst since until] that obtain a b where
      "to_github_date since = Inr a" "to_github_date until = Inr b" by blast
    from aggregate_Inr [OF this] show ?thesis by blast
  qed
  from e n eq tot show ?thesis by blast
qed

theorem review_without_timestamp_skipped_witness:
  "aggregate []
     [\<lparr>repository_name = ''x'', author_login = None, reviews = Some
        [\<lparr>review_author = Some ''bob'', createdAt = Some ''2024-01-08T10:00:00Z'',
          totalCount = 3\<rparr>,
         \<lparr>review_author = Some ''eve'', createdAt = None, totalCount = 5\<rparr>]\<rparr>]
     (datetime_of 2024 1 5 16 0 0 0 KST) (datetime_of 2024 1 12 16 0 0 0 KST) =
   Inr \<lparr>total_prs = 0, total_comments = 3, pr_by_repo = [], pr_by_person = [],
        comments_by_repo = [(''x'', 3)], comments_by_person = [(''bob'', 3)]\<rparr>"
proof -
  let ?rv = "\<lparr>review_author = Some ''eve'', createdAt = None, totalCount = 5\<rparr>"
  let ?bob = "\<lparr>review_author = Some ''bob'', createdAt = Some ''2024-01-08T10:00:00Z'',
          totalCount = 3\<rparr>"
  let ?pr = "\<lparr>repository_name = ''x'', author_login = None, reviews = None\<rparr>"
  have a: "createdAt ?rv = None" by simp
  from review_without_timestamp_skipped [OF a, where created_prs = "[]" and ?prs1.0 = "[]"
      and pr = ?pr and ?rs1.0 = "[?bob]" and ?rs2.0 = "[]" and ?prs2.0 = "[]"
      and since = "datetime_of 2024 1 5 16 0 0 0 KST"
      and until = "datetime_of 2024 1 12 16 0 0 0 KST"]
  have "aggregate [] [?pr\<lparr>reviews := Some [?bob, ?rv]\<rparr>]
      (datetime_of 2024 1 5 16 0 0 0 KST) (datetime_of 2024 1 12 16 0 0 0 KST) =
    aggregate [] [?pr\<lparr>reviews := Some [?bob]\<rparr>]
      (datetime_of 2024 1 5 16 0 0 0 KST) (datetime_of 2024 1 12 16 0 0 0 KST)"
    by simp
  also have "\<dots> = Inr \<lparr>total_prs = 0, total_comments = 3, pr_by_repo = [], pr_by_person = [],
        comments_by_repo = [(''x'', 3)], comments_by_person = [(''bob'', 3)]\<rparr>"
    using aggregate_single_review [OF sample_since sample_until, of "''x''" None ?bob]
    by (simp add: in_window_def get_createdAt_def sample_inside login_or_ghost_def)
  finally show ?thesis by simp
qed

subsection \<open>Ranking\<close>

lemma desc_sorted: "sorted_wrt (\<lambda>x y. snd x \<ge> snd y) (desc d)"
proof -
  have "sorted (map (\<lambda>x. - snd x) (desc d))"
    unfolding desc_def by (rule sorted_sort_key)
  then show ?thesis
    by (simp add: sorted_map)
qed

lemma desc_stable: "filter (\<lambda>x. snd x = c) (desc d) = filter (\<lambda>x. snd x = c) d"
  using sort_key_stable [of "\<lambda>x. - snd x" "- c" d] by (simp add: desc_def)

lemma desc_mset: "mset (desc d) = mset d"
  by (simp add: desc_def)

lemma desc_Nil_iff: "desc d = [] \<longleftrightarrow> d = []"
  using desc_mset [of d] by (metis mset_zero_iff)

lemma top_first:
  assumes "sorted_wrt (\<lambda>x y. snd x \<ge> snd y) xs" "x \<in> set (take n xs)" "y \<in> set (drop n xs)"
  shows "snd y \<le> snd x"
proof -
  from assms(1) have "sorted_wrt (\<lambda>x y. snd x \<ge> snd y) (take n xs @ drop n xs)" by simp
  then show ?thesis using assms(2,3) unfolding sorted_wrt_append by blast
qed

lemma ranking_Nil: "ranking [] unit limit = NO_ACTIVITY"
  by (simp add: ranking_def)

lemma show_nat_1: "show_nat 1 = ''1''" "show_nat (Suc 0) = ''1''"
  by (simp_all add: show_nat.simps)

lemma first_line:
  "\<exists>t rest. map (ranking_line unit) (enumerate 1 (take 10 (e # es))) = (''1. '' @ t) # rest"
  by (cases e) (simp add: take_Cons' ranking_line_def show_nat_1)

lemma take_join_first: "take 3 (join sep ((''1. '' @ t) # rest)) = ''1. ''"
  by (cases rest) simp_all

lemma join_Cons_take: "take (length x) (join sep (x # xs)) = x"
  by (cases xs) simp_all

text \<open>
  Claim C7. The mapping built by \<open>desc\<close> has the entries of the counter, in descending
  order of count, entries of equal count in their order of insertion. Rendering it
  gives the fixed text \<open>NO_ACTIVITY\<close> for an empty counter; otherwise it gives one
  numbered line for each of the first ten entries, so at most ten lines, none for an
  entry with a larger count than a rendered one.
\<close>

theorem ranking_of_desc:
  "sorted_wrt (\<lambda>x y. snd x \<ge> snd y) (desc d) \<and>
   (\<forall>c. filter (\<lambda>x. snd x = c) (desc d) = filter (\<lambda>x. snd x = c) d) \<and>
   mset (desc d) = mset d \<and>
   ranking_default (desc d) =
     (if d = [] then NO_ACTIVITY
      else join [CHR 0x0A] (map (ranking_line UNIT) (enumerate 1 (take 10 (desc d))))) \<and>
   length (take 10 (desc d)) = min 10 (length d) \<and>
   (\<forall>x \<in> set (take 10 (desc d)). \<forall>y \<in> set (drop 10 (desc d)). snd y \<le> snd x) \<and>
   (d \<noteq> [] \<longrightarrow> take 3 (ranking_default (desc d)) = ''1. '') \<and>
   take 3 NO_ACTIVITY \<noteq> ''1. ''"
proof -
  have r: "ranking_default (desc d) =
     (if d = [] then NO_ACTIVITY
      else join [CHR 0x0A] (map (ranking_line UNIT) (enumerate 1 (take 10 (desc d)))))"
    by (simp add: ranking_default_def ranking_def desc_Nil_iff)
  have l: "length (take 10 (desc d)) = min 10 (length d)"
    using desc_mset [of d, THEN mset_eq_length] by simp
  have t: "snd y \<le> snd x" if "x \<in> set (take 10 (desc d))" "y \<in> set (drop 10 (desc d))" for x y
    using top_first [OF desc_sorted that] .
  have h: "take 3 (ranking_default (desc d)) = ''1. ''" if "d \<noteq> []"
  proof -
    from that obtain e es where e: "desc d = e # es"
      using desc_Nil_iff [of d] by (cases "desc d") auto
    from first_line [of UNIT e es] obtain tl rest where
      "map (ranking_line UNIT) (enumerate 1 (take 10 (e # es))) = (''1. '' @ tl) # rest"
      by auto
    then have "map (ranking_line UNIT) (enumerate 1 (take 10 (desc d))) = (''1. '' @ tl) # rest"
      by (simp only: e)
    then have "ranking_default (desc d) = join [CHR 0x0A] ((''1. '' @ tl) # rest)"
      unfolding r using that by simp
    then show ?thesis by (simp only: take_join_first)
  qed
  have s: "take 3 NO_ACTIVITY \<noteq> ''1. ''" by (simp add: NO_ACTIVITY_def)
  from desc_sorted desc_stable desc_mset r l t h s show ?thesis by blast
qed

theorem ranking_of_desc_witness:
  "desc [(''A'', 5), (''C'', 2), (''B'', 5)] = [(''A'', 5), (''B'', 5), (''C'', 2)] \<and>
   ranking_default (desc [(''A'', 5), (''C'', 2), (''B'', 5)]) =
     ''1. A: 5'' @ UNIT @ [CHR 0x0A] @ ''2. B: 5'' @ UNIT @ [CHR 0x0A] @ ''3. C: 2'' @ UNIT \<and>
   take 3 (ranking_default (desc [(''A'', 5), (''C'', 2), (''B'', 5)])) = ''1. '' \<and>
   ranking_default (desc []) = NO_ACTIVITY"
proof -
  have d: "desc [(''A'', 5), (''C'', 2), (''B'', 5)] = [(''A'', 5), (''B'', 5), (''C'', 2)]"
    by (simp add: desc_def)
  note t = ranking_of_desc [of "[(''A'', 5), (''C'', 2), (''B'', 5)]"]
  have ne: "[(''A'', 5), (''C'', 2), (''B'', 5)] \<noteq> ([] :: counter)" by simp
  from t have "ranking_default (desc [(''A'', 5), (''C'', 2), (''B'', 5)]) =
      (if [(''A'', 5), (''C'', 2), (''B'', 5)] = ([] :: counter) then NO_ACTIVITY
       else join [CHR 0x0A] (map (ranking_line UNIT)
        (enumerate 1 (take 10 (desc [(''A'', 5), (''C'', 2), (''B'', 5)])))))"
    by blast
  also have "\<dots> = join [CHR 0x0A] (map (ranking_line UNIT)
        (enumerate 1 (take 10 (desc [(''A'', 5), (''C'', 2), (''B'', 5)]))))"
    by (simp only: ne if_False)
  also have "\<dots> =
      ''1. A: 5'' @ UNIT @ [CHR 0x0A] @ ''2. B: 5'' @ UNIT @ [CHR 0x0A] @ ''3. C: 2'' @ UNIT"
    unfolding d by (simp add: ranking_line_def show_nat.simps show_int_def)
  finally have r: "ranking_default (desc [(''A'', 5), (''C'', 2), (''B'', 5)]) =
      ''1. A: 5'' @ UNIT @ [CHR 0x0A] @ ''2. B: 5'' @ UNIT @ [CHR 0x0A] @ ''3. C: 2'' @ UNIT" .
  from t ne have h: "take 3 (ranking_default (desc [(''A'', 5), (''C'', 2), (''B'', 5)])) = ''1. ''"
    by blast
  from ranking_of_desc [of "[]"] have "ranking_default (desc []) =
      (if [] = ([] :: counter) then NO_ACTIVITY
       else join [CHR 0x0A] (map (ranking_line UNIT) (enumerate 1 (take 10 (desc [])))))"
    by blast
  then have e: "ranking_default (desc []) = NO_ACTIVITY"
    by simp
  from d r h e show ?thesis by blast
qed

subsection \<open>Pagination\<close>

lemma graphql_Data:
  assumes "environ ''GH_TOKEN'' = Some token"
    and "github \<lparr>bearer = token, document = query, search_q = q, after = cursor\<rparr> = Data search"
  shows "graphql environ github query q cursor w = (Inr search, w\<lparr>net := net w @ [GRAPHQL_URL]\<rparr>)"
  by (simp add: graphql_def assms Let_def)

lemma graphql_InrD:
  assumes "graphql environ github query q cursor w = (Inr search, w')"
  shows "\<exists>request. github request = Data search"
  using assms
  by (auto simp: graphql_def Let_def split: option.splits graphql_reply.splits)

text \<open>The last page ends the loop with everything collected and nothing written.\<close>

lemma paginate_loop_last_page:
  assumes "graphql environ github query q cursor w = (Inr search, w')" "\<not> hasNextPage search"
  shows "paginate_loop environ github query q cursor results w =
     Some (Inr (results @ truthy_nodes search), w')"
  by (subst paginate_loop.simps) (simp add: assms Let_def)

lemma paginate_loop_cap:
  assumes "graphql environ github query q cursor w = (Inr search, w')" "hasNextPage search"
    "1000 \<le> length (results @ truthy_nodes search)"
  shows "paginate_loop environ github query q cursor results w =
     Some (Inr (results @ truthy_nodes search), w'\<lparr>stderr := stderr w' @ [TruncationWarning]\<rparr>)"
  using assms(2,3) by (subst paginate_loop.simps) (simp add: assms(1) Let_def)

lemma paginate_loop_next:
  assumes "graphql environ github query q cursor w = (Inr search, w')" "hasNextPage search"
    "length (results @ truthy_nodes search) < 1000"
  shows "paginate_loop environ github query q cursor results w =
     paginate_loop environ github query q (endCursor search) (results @ truthy_nodes search) w'"
  using assms(2,3) by (subst paginate_loop.simps) (simp add: assms(1) Let_def)

text \<open>
  Whatever the loop returns from a state with fewer than 1000 results has at most 1099,
  when no page has more than 100 nodes that are not null.
\<close>

lemma paginate_loop_bound:
  assumes "paginate_loop environ github query q cursor results w = Some y"
  shows "(\<forall>request search. github request = Data search \<longrightarrow>
      length (truthy_nodes search) \<le> 100) \<longrightarrow>
    length results < 1000 \<longrightarrow> (\<forall>res w'. y = (Inr res, w') \<longrightarrow> length res \<le> 1099)"
proof (rule paginate_loop.raw_induct [where P = "\<lambda>environ github query q cursor results w y.
    (\<forall>request search. github request = Data search \<longrightarrow>
      length (truthy_nodes search) \<le> 100) \<longrightarrow>
    length results < 1000 \<longrightarrow> (\<forall>res w'. y = (Inr res, w') \<longrightarrow> length res \<le> 1099)",
    OF _ assms], goal_cases)
  case (1 loop environ github query q cursor results w y)
  show ?case
  proof (intro impI allI)
    fix res w'
    assume small: "\<forall>request search. github request = Data search \<longrightarrow>
        length (truthy_nodes search) \<le> 100"
      and len: "length results < 1000" and y: "y = (Inr res, w')"
    obtain r w1 where g: "graphql environ github query q cursor w = (r, w1)"
      by (cases "graphql environ github query q cursor w")
    show "length res \<le> 1099"
    proof (cases r)
      case (Inl e)
      with 1(2) g y show ?thesis by simp
    next
      case (Inr search)
      with g graphql_InrD [of environ github query q cursor w search w1] small
      have p: "length (truthy_nodes search) \<le> 100" by blast
      let ?results' = "results @ truthy_nodes search"
      from p len have b: "length ?results' \<le> 1099" by simp
      consider (last) "\<not> hasNextPage search"
        | (cap) "hasNextPage search" "1000 \<le> length ?results'"
        | (go) "hasNextPage search" "length ?results' < 1000"
        by linarith
      then show ?thesis
      proof cases
        case last
        with 1(2) g Inr y have "res = ?results'" by (simp add: Let_def)
        with b show ?thesis by simp
      next
        case cap
        with 1(2) g Inr y have "res = ?results'" by (simp add: Let_def)
        with b show ?thesis by simp
      next
        case go
        with 1(2) g Inr have
          "loop environ github query q (endCursor search) ?results' w1 = Some y"
          by (simp add: Let_def)
        from 1(1) [OF this] small go(2) y show ?thesis by blast
      qed
    qed
  qed
qed

subsection \<open>Runs against the scripted API\<close>

lemma map_filter_replicate_Some:
  "List.map_filter (\<lambda>n. n) (replicate k (Some x)) = replicate k x"
  by (induction k) simp_all

lemma scripted_page:
  assumes "cursor_index c = length pre"
  shows "scripted (pre @ p # post)
       \<lparr>bearer = token, document = query, search_q = q, after = c\<rparr> =
     Data \<lparr>nodes = items p, hasNextPage = has_more p, endCursor = Some (length pre + 1)\<rparr>"
  by (simp add: scripted_def assms Let_def)

lemma graphql_scripted:
  assumes "environ ''GH_TOKEN'' = Some token" "cursor_index c = length pre"
  shows "graphql environ (scripted (pre @ p # post)) query q c w =
     (Inr \<lparr>nodes = items p, hasNextPage = has_more p, endCursor = Some (length pre + 1)\<rparr>,
      w\<lparr>net := net w @ [GRAPHQL_URL]\<rparr>)"
  by (simp add: graphql_def assms scripted_def Let_def)

lemma truthy_nodes_page:
  "truthy_nodes \<lparr>nodes = items p, hasNextPage = h, endCursor = c\<rparr> = page_nodes p"
  by (simp add: truthy_nodes_def page_nodes_def)

text \<open>
  While pages announce a next page and fewer than 1000 nodes are collected, the loop
  moves on: after the pages \<open>mid\<close> it stands at the head of the next page.
\<close>

lemma scripted_run:
  assumes "environ ''GH_TOKEN'' = Some token"
  shows "cursor_index c = length pre \<Longrightarrow> \<forall>p \<in> set mid. has_more p \<Longrightarrow>
     length (acc @ concat (map page_nodes mid)) < 1000 \<Longrightarrow>
     paginate_loop environ (scripted (pre @ mid @ post)) query q c acc w =
     paginate_loop environ (scripted (pre @ mid @ post)) query q
       (if mid = [] then c else Some (length pre + length mid))
       (acc @ concat (map page_nodes mid))
       (w\<lparr>net := net w @ replicate (length mid) GRAPHQL_URL\<rparr>)"
proof (induction mid arbitrary: pre c acc w)
  case Nil
  then show ?case by simp
next
  case (Cons m ms)
  let ?api = "scripted (pre @ (m # ms) @ post)"
  let ?search = "\<lparr>nodes = items m, hasNextPage = has_more m, endCursor = Some (length pre + 1)\<rparr>"
  let ?w1 = "w\<lparr>net := net w @ [GRAPHQL_URL]\<rparr>"
  have g: "graphql environ ?api query q c w = (Inr ?search, ?w1)"
    using assms Cons.prems(1) by (simp add: graphql_scripted)
  have more: "hasNextPage ?search" using Cons.prems(2) by simp
  have small: "length (acc @ truthy_nodes ?search) < 1000"
    using Cons.prems(3) by (simp add: truthy_nodes_page)
  have 1: "paginate_loop environ ?api query q c acc w =
      paginate_loop environ ?api query q (Some (length pre + 1)) (acc @ page_nodes m) ?w1"
    using paginate_loop_next [OF g more small] by (simp add: truthy_nodes_page)
  have 2: "paginate_loop environ (scripted ((pre @ [m]) @ ms @ post)) query q
        (Some (length pre + 1)) (acc @ page_nodes m) ?w1 =
      paginate_loop environ (scripted ((pre @ [m]) @ ms @ post)) query q
        (if ms = [] then Some (length pre + 1) else Some (length (pre @ [m]) + length ms))
        ((acc @ page_nodes m) @ concat (map page_nodes ms))
        (?w1\<lparr>net := net ?w1 @ replicate (length ms) GRAPHQL_URL\<rparr>)"
    using Cons.prems(2,3) by (intro Cons.IH) (simp_all add: cursor_index_def)
  have 3: "(if ms = [] then Some (length pre + 1) else Some (length (pre @ [m]) + length ms)) =
      Some (length pre + length (m # ms))"
    by simp
  show ?case
    unfolding 1 using 2 unfolding 3 by (simp add: replicate_app_Cons_same)
qed

subsection \<open>The two pagination scenarios\<close>

lemma length_concat_pages:
  "\<forall>p \<in> set ps. length (page_nodes p) = n \<Longrightarrow>
   length (concat (map page_nodes ps)) = n * length ps"
  by (induction ps) simp_all

lemma scripted_cap:
  assumes "environ ''GH_TOKEN'' = Some token"
    and "\<forall>p \<in> set mid. has_more p" "has_more final"
    and "length (concat (map page_nodes mid)) < 1000"
    and "1000 \<le> length (concat (map page_nodes (mid @ [final])))"
  shows "paginate_search environ (scripted (mid @ final # rest)) query q w =
     Some (Inr (concat (map page_nodes (mid @ [final]))),
           w\<lparr>net := net w @ replicate (length mid + 1) GRAPHQL_URL,
             stderr := stderr w @ [TruncationWarning]\<rparr>)"
proof -
  let ?api = "scripted (mid @ final # rest)"
  let ?c = "if mid = [] then None else Some (length mid)"
  let ?acc = "concat (map page_nodes mid)"
  let ?w1 = "w\<lparr>net := net w @ replicate (length mid) GRAPHQL_URL\<rparr>"
  let ?search = "\<lparr>nodes = items final, hasNextPage = has_more final,
      endCursor = Some (length mid + 1)\<rparr>"
  have 1: "paginate_search environ ?api query q w =
      paginate_loop environ ?api query q ?c ?acc ?w1"
    using scripted_run [where environ = environ and token = token and pre = "[]"
        and mid = mid and post = "final # rest" and c = None and acc = "[]" and w = w
        and query = query and q = q] assms
    by (simp add: paginate_search_def cursor_index_def)
  have i: "cursor_index ?c = length mid" by (simp add: cursor_index_def)
  have g: "graphql environ ?api query q ?c ?w1 =
      (Inr ?search, ?w1\<lparr>net := net ?w1 @ [GRAPHQL_URL]\<rparr>)"
    using assms(1) i by (simp add: graphql_scripted)
  have "paginate_loop environ ?api query q ?c ?acc ?w1 =
      Some (Inr (?acc @ truthy_nodes ?search),
        (?w1\<lparr>net := net ?w1 @ [GRAPHQL_URL]\<rparr>)
          \<lparr>stderr := stderr (?w1\<lparr>net := net ?w1 @ [GRAPHQL_URL]\<rparr>) @ [TruncationWarning]\<rparr>)"
    by (rule paginate_loop_cap [OF g]) (use assms in \<open>simp_all add: truthy_nodes_page\<close>)
  then show ?thesis
    unfolding 1 by (simp add: truthy_nodes_page replicate_append_same)
qed

lemma scripted_last:
  assumes "environ ''GH_TOKEN'' = Some token"
    and "\<forall>p \<in> set mid. has_more p" "\<not> has_more final"
    and "length (concat (map page_nodes mid)) < 1000"
  shows "paginate_search environ (scripted (mid @ final # rest)) query q w =
     Some (Inr (concat (map page_nodes (mid @ [final]))),
           w\<lparr>net := net w @ replicate (length mid + 1) GRAPHQL_URL\<rparr>)"
proof -
  let ?api = "scripted (mid @ final # rest)"
  let ?c = "if mid = [] then None else Some (length mid)"
  let ?acc = "concat (map page_nodes mid)"
  let ?w1 = "w\<lparr>net := net w @ replicate (length mid) GRAPHQL_URL\<rparr>"
  let ?search = "\<lparr>nodes = items final, hasNextPage = has_more final,
      endCursor = Some (length mid + 1)\<rparr>"
  have 1: "paginate_search environ ?api query q w =
      paginate_loop environ ?api query q ?c ?acc ?w1"
    using scripted_run [where environ = environ and token = token and pre = "[]"
        and mid = mid and post = "final # rest" and c = None and acc = "[]" and w = w
        and query = query and q = q] assms
    by (simp add: paginate_search_def cursor_index_def)
  have i: "cursor_index ?c = length mid" by (simp add: cursor_index_def)
  have g: "graphql environ ?api query q ?c ?w1 =
      (Inr ?search, ?w1\<lparr>net := net ?w1 @ [GRAPHQL_URL]\<rparr>)"
    using assms(1) i by (simp add: graphql_scripted)
  have "paginate_loop environ ?api query q ?c ?acc ?w1 =
      Some (Inr (?acc @ truthy_nodes ?search), ?w1\<lparr>net := net ?w1 @ [GRAPHQL_URL]\<rparr>)"
    by (rule paginate_loop_last_page [OF g]) (use assms in simp)
  then show ?thesis
    unfolding 1 by (simp add: truthy_nodes_page replicate_append_same)
qed

text \<open>
  Claim C2. Against a simulated API whose first ten pages each carry 100 nodes that are
  not null and announce a next page, the collection returns exactly those 1000 records
  and writes the truncation warning. Against one that serves pages announcing a next
  page, fewer than 1000 records in all, and then a page announcing none, it returns
  the records of all these pages and writes nothing.
\<close>

theorem paginate_search_scenarios:
  assumes "environ ''GH_TOKEN'' = Some token"
  shows
   "(10 \<le> length pages \<and>
     (\<forall>p \<in> set (take 10 pages). has_more p \<and> length (page_nodes p) = 100) \<longrightarrow>
       (\<exists>res w'. paginate_search environ (scripted pages) query q w = Some (Inr res, w') \<and>
          res = concat (map page_nodes (take 10 pages)) \<and> length res = 1000 \<and>
          stderr w' = stderr w @ [TruncationWarning] \<and>
          net w' = net w @ replicate 10 GRAPHQL_URL)) \<and>
    ((\<forall>p \<in> set full. has_more p) \<and> length (concat (map page_nodes full)) < 1000 \<and>
     \<not> has_more final \<longrightarrow>
       (\<exists>w'. paginate_search environ (scripted (full @ final # rest)) query q w =
            Some (Inr (concat (map page_nodes full) @ page_nodes final), w') \<and>
          stderr w' = stderr w \<and>
          net w' = net w @ replicate (length full + 1) GRAPHQL_URL))"
proof -
  have A: "\<exists>res w'. paginate_search environ (scripted pages) query q w = Some (Inr res, w') \<and>
          res = concat (map page_nodes (take 10 pages)) \<and> length res = 1000 \<and>
          stderr w' = stderr w @ [TruncationWarning] \<and>
          net w' = net w @ replicate 10 GRAPHQL_URL"
    if h: "10 \<le> length pages \<and>
     (\<forall>p \<in> set (take 10 pages). has_more p \<and> length (page_nodes p) = 100)"
  proof -
    let ?mid = "take 9 pages" and ?final = "pages ! 9" and ?rest = "drop 10 pages"
    from h have t: "take 10 pages = ?mid @ [?final]"
      using take_Suc_conv_app_nth [of 9 pages] by simp
    from h have p: "pages = ?mid @ ?final # ?rest"
      using id_take_nth_drop [of 9 pages] by simp
    from h have all: "\<forall>p \<in> set (?mid @ [?final]). has_more p \<and> length (page_nodes p) = 100"
      unfolding t by simp
    then have m: "\<forall>p \<in> set ?mid. has_more p" "has_more ?final" by simp_all
    from h have l9: "length ?mid = 9" by simp
    from all have "\<forall>p \<in> set ?mid. length (page_nodes p) = 100" by simp
    from length_concat_pages [OF this] l9
    have s: "length (concat (map page_nodes ?mid)) = 900" by simp
    from all length_concat_pages [of "?mid @ [?final]" 100] l9
    have e: "length (concat (map page_nodes (?mid @ [?final]))) = 1000" by simp
    from s have s': "length (concat (map page_nodes ?mid)) < 1000" by simp
    from e have e': "1000 \<le> length (concat (map page_nodes (?mid @ [?final])))" by simp
    have "paginate_search environ (scripted (?mid @ ?final # ?rest)) query q w =
     Some (Inr (concat (map page_nodes (?mid @ [?final]))),
           w\<lparr>net := net w @ replicate (length ?mid + 1) GRAPHQL_URL,
             stderr := stderr w @ [TruncationWarning]\<rparr>)"
      by (rule scripted_cap [where token = token]) (use assms m s' e' in simp_all)
    then have "paginate_search environ (scripted pages) query q w =
     Some (Inr (concat (map page_nodes (take 10 pages))),
           w\<lparr>net := net w @ replicate 10 GRAPHQL_URL,
             stderr := stderr w @ [TruncationWarning]\<rparr>)"
      unfolding p [symmetric] t [symmetric] l9 by simp
    moreover have "length (concat (map page_nodes (take 10 pages))) = 1000"
      unfolding t by (rule e)
    ultimately show ?thesis by simp
  qed
  have B: "\<exists>w'. paginate_search environ (scripted (full @ final # rest)) query q w =
            Some (Inr (concat (map page_nodes full) @ page_nodes final), w') \<and>
          stderr w' = stderr w \<and>
          net w' = net w @ replicate (length full + 1) GRAPHQL_URL"
    if h: "(\<forall>p \<in> set full. has_more p) \<and> length (concat (map page_nodes full)) < 1000 \<and>
     \<not> has_more final"
    using scripted_last [where environ = environ and token = token and mid = full
        and final = final and rest = rest and query = query and q = q and w = w] assms h
    by simp
  from A B show ?thesis by blast
qed

lemma length_concat_replicate: "length (concat (replicate n xs)) = n * length xs"
  by (induction n) simp_all

lemma sample_token: "sample_env ''GH_TOKEN'' = Some ''token''"
  by (simp add: sample_env_def)

lemma page_nodes_full: "page_nodes full_page = replicate 100 sample_pr"
  by (simp add: page_nodes_def full_page_def map_filter_replicate_Some)

lemma page_nodes_holed: "page_nodes holed_page = replicate 99 sample_pr"
  by (simp add: page_nodes_def holed_page_def map_filter_replicate_Some)

lemma has_more_samples: "has_more full_page" "has_more holed_page"
  by (simp_all add: full_page_def holed_page_def)

theorem paginate_search_scenarios_witness:
  "(\<exists>res w'. paginate_search sample_env (scripted (replicate 12 full_page)) CreatedQuery ''q''
        empty_world = Some (Inr res, w') \<and>
      length res = 1000 \<and> stderr w' = [TruncationWarning]) \<and>
   (\<exists>res w'. paginate_search sample_env
        (scripted (replicate 3 full_page @ [\<lparr>items = [Some sample_pr, None], has_more = False\<rparr>]))
        CreatedQuery ''q'' empty_world = Some (Inr res, w') \<and>
      length res = 301 \<and> stderr w' = [])"
proof -
  let ?final = "\<lparr>items = [Some sample_pr, None], has_more = False\<rparr>"
  note t = paginate_search_scenarios [where environ = sample_env and token = "''token''"
      and w = empty_world and query = CreatedQuery and q = "''q''", OF sample_token]
  have a: "10 \<le> length (replicate 12 full_page) \<and>
     (\<forall>p \<in> set (take 10 (replicate 12 full_page)). has_more p \<and> length (page_nodes p) = 100)"
    by (simp add: has_more_samples page_nodes_full)
  have b: "(\<forall>p \<in> set (replicate 3 full_page). has_more p) \<and>
      length (concat (map page_nodes (replicate 3 full_page))) < 1000 \<and> \<not> has_more ?final"
    by (simp add: has_more_samples page_nodes_full length_concat_replicate)
  from t [where pages = "replicate 12 full_page", THEN conjunct1] a
  obtain res w' where
    "paginate_search sample_env (scripted (replicate 12 full_page)) CreatedQuery ''q''
        empty_world = Some (Inr res, w')"
    "length res = 1000" "stderr w' = stderr empty_world @ [TruncationWarning]"
    by blast
  then have 1: "\<exists>res w'. paginate_search sample_env (scripted (replicate 12 full_page))
        CreatedQuery ''q'' empty_world = Some (Inr res, w') \<and>
      length res = 1000 \<and> stderr w' = [TruncationWarning]"
    by (simp add: empty_world_def)
  have f: "page_nodes ?final = [sample_pr]"
    by (simp add: page_nodes_def)
  have n: "length (concat (map page_nodes (replicate 3 full_page)) @ page_nodes ?final) = 301"
    unfolding f by (simp add: page_nodes_full length_concat_replicate)
  from t [where full = "replicate 3 full_page" and final = ?final and rest = "[]",
      THEN conjunct2] b
  obtain w2 where
    "paginate_search sample_env (scripted (replicate 3 full_page @ [?final]))
        CreatedQuery ''q'' empty_world =
      Some (Inr (concat (map page_nodes (replicate 3 full_page)) @ page_nodes ?final), w2)"
    "stderr w2 = stderr empty_world"
    by blast
  with n have 2: "\<exists>res w'. paginate_search sample_env
        (scripted (replicate 3 full_page @ [?final]))
        CreatedQuery ''q'' empty_world = Some (Inr res, w') \<and>
      length res = 301 \<and> stderr w' = []"
    by (simp add: empty_world_def)
  from 1 2 show ?thesis by blast
qed

subsection \<open>The size of a collection\<close>

lemma scripted_page_size:
  assumes "\<forall>p \<in> set pages. length (page_nodes p) \<le> 100" "scripted pages request = Data search"
  shows "length (truthy_nodes search) \<le> 100"
proof -
  let ?i = "cursor_index (after request)"
  from assms(2) have i: "?i < length pages"
    by (auto simp: scripted_def Let_def split: if_splits)
  with assms(2) have "truthy_nodes search = page_nodes (pages ! ?i)"
    by (auto simp: scripted_def Let_def truthy_nodes_page)
  with assms(1) i show ?thesis by simp
qed

text \<open>
  Claim C9. When no page has more than 100 nodes that are not null, whatever list the
  collection returns has at most 1099 records. The bound is reached: against nine pages
  of 100 records, a page of 99 records and a null, and a page of 100 records, 1099
  records are returned, since the count is compared with 1000 only after a whole page
  has been added.
\<close>

theorem paginate_search_at_most_1099:
  "((\<forall>request search. github request = Data search \<longrightarrow> length (truthy_nodes search) \<le> 100) \<and>
    paginate_search environ github query q w = Some (Inr results, w') \<longrightarrow>
      length results \<le> 1099) \<and>
   (\<exists>pages res w1.
      (\<forall>request search. scripted pages request = Data search \<longrightarrow>
         length (truthy_nodes search) \<le> 100) \<and>
      paginate_search sample_env (scripted pages) query q w = Some (Inr res, w1) \<and>
      1000 < length res \<and> length res = 1099)"
proof -
  have A: "length results \<le> 1099"
    if "(\<forall>request search. github request = Data search \<longrightarrow>
          length (truthy_nodes search) \<le> 100) \<and>
        paginate_search environ github query q w = Some (Inr results, w')"
    using paginate_loop_bound [of environ github query q None "[]" w "(Inr results, w')"] that
    by (simp add: paginate_search_def)
  let ?mid = "replicate 9 full_page @ [holed_page]"
  let ?pages = "?mid @ full_page # []"
  have sz: "\<forall>p \<in> set ?pages. length (page_nodes p) \<le> 100"
    by (simp add: page_nodes_full page_nodes_holed)
  have m: "\<forall>p \<in> set ?mid. has_more p" by (simp add: has_more_samples)
  have l: "length (concat (map page_nodes ?mid)) = 999"
    by (simp add: page_nodes_full page_nodes_holed length_concat_replicate)
  have l2: "length (concat (map page_nodes (?mid @ [full_page]))) = 1099"
    using l by (simp add: page_nodes_full)
  have run: "paginate_search sample_env (scripted ?pages) query q w =
     Some (Inr (concat (map page_nodes (?mid @ [full_page]))),
           w\<lparr>net := net w @ replicate (length ?mid + 1) GRAPHQL_URL,
             stderr := stderr w @ [TruncationWarning]\<rparr>)"
    by (rule scripted_cap [where token = "''token''"])
       (use sample_token m has_more_samples l l2 in simp_all)
  have B: "\<exists>pages res w1.
      (\<forall>request search. scripted pages request = Data search \<longrightarrow>
         length (truthy_nodes search) \<le> 100) \<and>
      paginate_search sample_env (scripted pages) query q w = Some (Inr res, w1) \<and>
      1000 < length res \<and> length res = 1099"
    using scripted_page_size [OF sz] run l2 by (intro exI [of _ ?pages]) auto
  from A B show ?thesis by blast
qed

theorem paginate_search_at_most_1099_witness:
  "\<exists>res w'. paginate_search sample_env
       (scripted (replicate 10 holed_page @ [full_page])) ReviewsQuery ''q'' empty_world =
     Some (Inr res, w') \<and> length res = 1090 \<and> length res \<le> 1099"
proof -
  let ?mid = "replicate 10 holed_page"
  let ?pages = "?mid @ full_page # []"
  have sz: "\<forall>p \<in> set ?pages. length (page_nodes p) \<le> 100"
    by (simp add: page_nodes_full page_nodes_holed)
  have m: "\<forall>p \<in> set ?mid. has_more p" by (simp add: has_more_samples)
  have l: "length (concat (map page_nodes ?mid)) = 990"
    by (simp add: page_nodes_holed length_concat_replicate)
  have l2: "length (concat (map page_nodes (?mid @ [full_page]))) = 1090"
    using l by (simp add: page_nodes_full)
  have run: "paginate_search sample_env (scripted ?pages) ReviewsQuery ''q'' empty_world =
     Some (Inr (concat (map page_nodes (?mid @ [full_page]))),
           empty_world\<lparr>net := net empty_world @ replicate (length ?mid + 1) GRAPHQL_URL,
             stderr := stderr empty_world @ [TruncationWarning]\<rparr>)"
    by (rule scripted_cap [where token = "''token''"])
       (use sample_token m has_more_samples l l2 in simp_all)
  from paginate_search_at_most_1099 [of "scripted ?pages" sample_env ReviewsQuery "''q''"
      empty_world "concat (map page_nodes (?mid @ [full_page]))"]
    scripted_page_size [OF sz] run
  have "length (concat (map page_nodes (?mid @ [full_page]))) \<le> 1099" by blast
  with run l2 show ?thesis by auto
qed

subsection \<open>Missing configuration\<close>

lemma dt_add_Inl: "dt_add d x = Inl e \<Longrightarrow> e = OverflowError"
  by (auto simp: dt_add_def Let_def split: if_splits)

lemma astimezone_Inl: "astimezone d tz = Inl e \<Longrightarrow> e = OverflowError"
  by (auto simp: astimezone_def split: if_splits sum.splits dest: dt_add_Inl)

lemma to_github_date_Inl: "to_github_date d = Inl e \<Longrightarrow> e = OverflowError"
  by (auto simp: to_github_date_def split: sum.splits dest: astimezone_Inl)

lemma get_report_range_Inl: "get_report_range d = Inl e \<Longrightarrow> e = OverflowError"
  by (auto simp: get_report_range_def split: sum.splits dest: dt_add_Inl)

lemma search_string_Inl: "search_string org field since until = Inl e \<Longrightarrow> e = OverflowError"
  by (auto simp: search_string_def split: sum.splits dest: to_github_date_Inl)

lemma aggregate_Inl: "aggregate c u since until = Inl e \<Longrightarrow> e = OverflowError"
  by (auto simp: aggregate_def split: sum.splits prod.splits dest: to_github_date_Inl)

lemma fatal_simps [simp]:
  "fatal OverflowError" "fatal (KeyError k)" "fatal URLError" "fatal (SystemExit 1)"
  by (simp_all add: fatal_def)

lemma exit_status_fatal: "fatal e \<Longrightarrow> exit_status (Inl e :: failure + unit) \<noteq> 0"
  by (simp add: fatal_def)

text \<open>A request to the query API posts to its URL at most once, and fails fatally if it fails.\<close>

lemma graphql_effects:
  assumes "graphql environ github query q cursor w = (r, w')"
  shows "set (net w') \<subseteq> set (net w) \<union> {GRAPHQL_URL}" "\<And>e. r = Inl e \<Longrightarrow> fatal e"
  using assms
  by (auto simp: graphql_def Let_def split: option.splits graphql_reply.splits)

lemma graphql_no_token:
  "environ ''GH_TOKEN'' = None \<Longrightarrow>
   graphql environ github query q cursor w = (Inl (KeyError ''GH_TOKEN''), w)"
  by (simp add: graphql_def)

lemma paginate_search_no_token:
  "environ ''GH_TOKEN'' = None \<Longrightarrow>
   paginate_search environ github query q w = Some (Inl (KeyError ''GH_TOKEN''), w)"
  unfolding paginate_search_def
  by (subst paginate_loop.simps) (simp add: graphql_no_token)

lemma paginate_loop_effects:
  assumes "paginate_loop environ github query q cursor results w = Some y"
  shows "set (net (snd y)) \<subseteq> set (net w) \<union> {GRAPHQL_URL} \<and> (\<forall>e. fst y = Inl e \<longrightarrow> fatal e)"
proof (rule paginate_loop.raw_induct [where P = "\<lambda>environ github query q cursor results w y.
    set (net (snd y)) \<subseteq> set (net w) \<union> {GRAPHQL_URL} \<and> (\<forall>e. fst y = Inl e \<longrightarrow> fatal e)",
    OF _ assms], goal_cases)
  case (1 loop environ github query q cursor results w y)
  obtain r w1 where g: "graphql environ github query q cursor w = (r, w1)"
    by (cases "graphql environ github query q cursor w")
  note e = graphql_effects [OF g]
  show ?case
  proof (cases r)
    case (Inl x)
    with 1(2) g e show ?thesis by auto
  next
    case (Inr search)
    let ?results' = "results @ truthy_nodes search"
    consider (last) "\<not> hasNextPage search"
      | (cap) "hasNextPage search" "1000 \<le> length ?results'"
      | (go) "hasNextPage search" "length ?results' < 1000"
      by linarith
    then show ?thesis
    proof cases
      case last
      with 1(2) g Inr e(1) show ?thesis by (auto simp: Let_def)
    next
      case cap
      with 1(2) g Inr e(1) show ?thesis by (auto simp: Let_def)
    next
      case go
      with 1(2) g Inr have
        "loop environ github query q (endCursor search) ?results' w1 = Some y"
        by (simp add: Let_def)
      from 1(1) [OF this] e(1) show ?thesis by auto
    qed
  qed
qed

lemma search_effects:
  assumes "search_prs_created environ github org since until w = Some (r, w') \<or>
           search_prs_with_reviews environ github org since until w = Some (r, w')"
  shows "set (net w') \<subseteq> set (net w) \<union> {GRAPHQL_URL}" "\<And>e. r = Inl e \<Longrightarrow> fatal e"
proof -
  have "set (net w') \<subseteq> set (net w) \<union> {GRAPHQL_URL} \<and> (\<forall>e. r = Inl e \<longrightarrow> fatal e)"
    if "(case search_string org field since until of
          Inl e \<Rightarrow> Some (Inl e, w)
        | Inr q \<Rightarrow> paginate_search environ github query q w) = Some (r, w')"
    for field query
  proof (cases "search_string org field since until")
    case (Inl e)
    with that search_string_Inl [OF Inl] show ?thesis by auto
  next
    case (Inr q)
    with that have "paginate_loop environ github query q None [] w = Some (r, w')"
      by (simp add: paginate_search_def)
    from paginate_loop_effects [OF this] show ?thesis by simp
  qed
  with assms show "set (net w') \<subseteq> set (net w) \<union> {GRAPHQL_URL}" "\<And>e. r = Inl e \<Longrightarrow> fatal e"
    unfolding search_prs_created_def search_prs_with_reviews_def by blast+
qed

lemma search_no_token:
  assumes "environ ''GH_TOKEN'' = None"
  shows "\<exists>e. search_prs_created environ github org since until w = Some (Inl e, w) \<and> fatal e"
  using assms
  by (cases "search_string org ''created'' since until")
     (auto simp: search_prs_created_def paginate_search_no_token dest: search_string_Inl)

lemma send_slack_missing:
  assumes "environ ''SLACK_BOT_TOKEN'' = None \<or> environ ''SLACK_CHANNEL_ID'' = None"
  shows "\<exists>k. send_slack environ slack_api st since until w = (Inl (KeyError k), w)"
  using assms by (auto simp: send_slack_def split: option.splits)

lemma main_no_org:
  assumes "environ ''ORG_NAME'' = None \<or> environ ''ORG_NAME'' = Some []"
  shows "main environ now_kst github slack_api w =
     Some (Inl (SystemExit 1), w\<lparr>stderr := stderr w @ [OrgNameRequired]\<rparr>)"
  using assms by (auto simp: main_def)

text \<open>The run from the first network request on, for a window and its two local dates.\<close>

lemma main_with_window:
  assumes "environ ''ORG_NAME'' = Some org" "org \<noteq> []"
    and "get_report_range now_kst = Inr (since, until)"
    and "astimezone since KST = Inr since_kst" "astimezone until KST = Inr until_kst"
  shows "main environ now_kst github slack_api w =
     (let w1 = w\<lparr>stdout := stdout w @ [ReportHeader org since_kst until_kst]\<rparr> in
      case search_prs_created environ github org since until w1 of
        None \<Rightarrow> None
      | Some (Inl e, w2) \<Rightarrow> Some (Inl e, w2)
      | Some (Inr created_prs, w2) \<Rightarrow>
         (let w3 = w2\<lparr>stdout := stdout w2 @ [CreatedCount (length created_prs)]\<rparr> in
          case search_prs_with_reviews environ github org since until w3 of
            None \<Rightarrow> None
          | Some (Inl e, w4) \<Rightarrow> Some (Inl e, w4)
          | Some (Inr updated_prs, w4) \<Rightarrow>
             (let w5 = w4\<lparr>stdout := stdout w4 @ [ReviewedCount (length updated_prs)]\<rparr> in
              case aggregate created_prs updated_prs since until of
                Inl e \<Rightarrow> Some (Inl e, w5)
              | Inr st \<Rightarrow>
                 (let w6 = w5\<lparr>stdout := stdout w5 @
                             [Totals (total_prs st) (total_comments st)]\<rparr> in
                  Some (send_slack environ slack_api st since until w6)))))"
  by (simp add: main_def assms)

lemma main_before_window:
  assumes "environ ''ORG_NAME'' = Some org" "org \<noteq> []"
    and "get_report_range now_kst = Inl e \<or>
      (\<exists>since until. get_report_range now_kst = Inr (since, until) \<and>
         (astimezone since KST = Inl e \<or>
          (\<exists>s. astimezone since KST = Inr s) \<and> astimezone until KST = Inl e))"
  shows "main environ now_kst github slack_api w = Some (Inl e, w)"
  using assms by (auto simp: main_def)

lemma main_reaches_window:
  assumes "environ ''ORG_NAME'' = Some org" "org \<noteq> []"
  shows "(\<exists>e. fatal e \<and> main environ now_kst github slack_api w = Some (Inl e, w)) \<or>
    (\<exists>since until since_kst until_kst. get_report_range now_kst = Inr (since, until) \<and>
       astimezone since KST = Inr since_kst \<and> astimezone until KST = Inr until_kst)"
proof (cases "get_report_range now_kst")
  case (Inl e)
  with main_before_window [where environ = environ and org = org and now_kst = now_kst
      and e = e and github = github and slack_api = slack_api and w = w]
    assms get_report_range_Inl [OF Inl]
  show ?thesis by auto
next
  case (Inr p)
  obtain since until where p: "p = (since, until)" by (cases p)
  show ?thesis
  proof (cases "astimezone since KST")
    case (Inl e)
    with main_before_window [where environ = environ and org = org and now_kst = now_kst
      and e = e and github = github and slack_api = slack_api and w = w]
      assms astimezone_Inl [OF Inl] Inr p
    show ?thesis by auto
  next
    case s: (Inr since_kst)
    show ?thesis
    proof (cases "astimezone until KST")
      case (Inl e)
      with main_before_window [where environ = environ and org = org and now_kst = now_kst
        and e = e and github = github and slack_api = slack_api and w = w]
        assms astimezone_Inl [OF Inl] Inr p s
      show ?thesis by auto
    next
      case (Inr until_kst)
      with \<open>get_report_range now_kst = Inr p\<close> p s show ?thesis by auto
    qed
  qed
qed

lemma main_no_token:
  assumes "environ ''GH_TOKEN'' = None"
  shows "\<exists>e w'. main environ now_kst github slack_api w = Some (Inl e, w') \<and> fatal e \<and>
    net w' = net w"
proof (cases "environ ''ORG_NAME'' = None \<or> environ ''ORG_NAME'' = Some []")
  case True
  then show ?thesis by (simp add: main_no_org)
next
  case False
  then obtain org where o: "environ ''ORG_NAME'' = Some org" "org \<noteq> []" by auto
  from main_reaches_window [where environ = environ and org = org and now_kst = now_kst
      and github = github and slack_api = slack_api and w = w] o
  have "(\<exists>e. fatal e \<and> main environ now_kst github slack_api w = Some (Inl e, w)) \<or>
    (\<exists>since until since_kst until_kst. get_report_range now_kst = Inr (since, until) \<and>
       astimezone since KST = Inr since_kst \<and> astimezone until KST = Inr until_kst)"
    by simp
  then show ?thesis
  proof
    assume "\<exists>e. fatal e \<and> main environ now_kst github slack_api w = Some (Inl e, w)"
    then show ?thesis by auto
  next
    assume "\<exists>since until since_kst until_kst. get_report_range now_kst = Inr (since, until) \<and>
       astimezone since KST = Inr since_kst \<and> astimezone until KST = Inr until_kst"
    then obtain since until since_kst until_kst where
      r: "get_report_range now_kst = Inr (since, until)"
        "astimezone since KST = Inr since_kst" "astimezone until KST = Inr until_kst"
      by blast
    let ?w1 = "w\<lparr>stdout := stdout w @ [ReportHeader org since_kst until_kst]\<rparr>"
    from search_no_token [where environ = environ and github = github and org = org
        and since = since and until = until and w = ?w1] assms
    obtain e where
      "search_prs_created environ github org since until ?w1 = Some (Inl e, ?w1)" "fatal e"
      by blast
    then show ?thesis
      using o r by (simp add: main_with_window Let_def)
  qed
qed

lemma main_no_slack:
  assumes "environ ''SLACK_BOT_TOKEN'' = None \<or> environ ''SLACK_CHANNEL_ID'' = None"
    and m: "main environ now_kst github slack_api w = Some (r, w')"
  shows "(\<exists>e. r = Inl e \<and> fatal e) \<and> set (net w') \<subseteq> set (net w) \<union> {GRAPHQL_URL}"
proof (cases "environ ''ORG_NAME'' = None \<or> environ ''ORG_NAME'' = Some []")
  case True
  with m show ?thesis by (auto simp: main_no_org)
next
  case False
  then obtain org where o: "environ ''ORG_NAME'' = Some org" "org \<noteq> []" by auto
  from main_reaches_window [where environ = environ and org = org and now_kst = now_kst
      and github = github and slack_api = slack_api and w = w] o
  have "(\<exists>e. fatal e \<and> main environ now_kst github slack_api w = Some (Inl e, w)) \<or>
    (\<exists>since until since_kst until_kst. get_report_range now_kst = Inr (since, until) \<and>
       astimezone since KST = Inr since_kst \<and> astimezone until KST = Inr until_kst)"
    by simp
  then show ?thesis
  proof
    assume "\<exists>e. fatal e \<and> main environ now_kst github slack_api w = Some (Inl e, w)"
    with m show ?thesis by auto
  next
    assume "\<exists>since until since_kst until_kst. get_report_range now_kst = Inr (since, until) \<and>
       astimezone since KST = Inr since_kst \<and> astimezone until KST = Inr until_kst"
    then obtain since until since_kst until_kst where
      r: "get_report_range now_kst = Inr (since, until)"
        "astimezone since KST = Inr since_kst" "astimezone until KST = Inr until_kst"
      by blast
    let ?w1 = "w\<lparr>stdout := stdout w @ [ReportHeader org since_kst until_kst]\<rparr>"
    have "main environ now_kst github slack_api w =
     (let w1 = w\<lparr>stdout := stdout w @ [ReportHeader org since_kst until_kst]\<rparr> in
      case search_prs_created environ github org since until w1 of
        None \<Rightarrow> None
      | Some (Inl e, w2) \<Rightarrow> Some (Inl e, w2)
      | Some (Inr created_prs, w2) \<Rightarrow>
         (let w3 = w2\<lparr>stdout := stdout w2 @ [CreatedCount (length created_prs)]\<rparr> in
          case search_prs_with_reviews environ github org since until w3 of
            None \<Rightarrow> None
          | Some (Inl e, w4) \<Rightarrow> Some (Inl e, w4)
          | Some (Inr updated_prs, w4) \<Rightarrow>
             (let w5 = w4\<lparr>stdout := stdout w4 @ [ReviewedCount (length updated_prs)]\<rparr> in
              case aggregate created_prs updated_prs since until of
                Inl e \<Rightarrow> Some (Inl e, w5)
              | Inr st \<Rightarrow>
                 (let w6 = w5\<lparr>stdout := stdout w5 @
                             [Totals (total_prs st) (total_comments st)]\<rparr> in
                  Some (send_slack environ slack_api st since until w6)))))"
      using o r by (rule main_with_window)
    note mw = m [unfolded this Let_def]
    from mw obtain rc w2 where
      c: "search_prs_created environ github org since until ?w1 = Some (rc, w2)"
      by (cases "search_prs_created environ github org since until ?w1") auto
    from search_effects [of environ github org since until ?w1 rc w2] c
    have n2: "set (net w2) \<subseteq> set (net w) \<union> {GRAPHQL_URL}" and f2: "\<And>e. rc = Inl e \<Longrightarrow> fatal e"
      by simp_all
    show ?thesis
    proof (cases rc)
      case (Inl e)
      with mw c f2 n2 show ?thesis by auto
    next
      case created: (Inr created_prs)
      let ?w3 = "w2\<lparr>stdout := stdout w2 @ [CreatedCount (length created_prs)]\<rparr>"
      from mw c created obtain ru w4 where
        u: "search_prs_with_reviews environ github org since until ?w3 = Some (ru, w4)"
        by (cases "search_prs_with_reviews environ github org since until ?w3") auto
      from search_effects [of environ github org since until ?w3 ru w4] u
      have n4: "set (net w4) \<subseteq> set (net w2) \<union> {GRAPHQL_URL}"
        and f4: "\<And>e. ru = Inl e \<Longrightarrow> fatal e"
        by simp_all
      show ?thesis
      proof (cases ru)
        case (Inl e)
        with mw c created u f4 n4 n2 show ?thesis by auto
      next
        case updated: (Inr updated_prs)
        let ?w5 = "w4\<lparr>stdout := stdout w4 @ [ReviewedCount (length updated_prs)]\<rparr>"
        show ?thesis
        proof (cases "aggregate created_prs updated_prs since until")
          case (Inl e)
          with mw c created u updated aggregate_Inl [OF Inl] n4 n2 show ?thesis by auto
        next
          case (Inr st)
          let ?w6 = "?w5\<lparr>stdout := stdout ?w5 @ [Totals (total_prs st) (total_comments st)]\<rparr>"
          from send_slack_missing [where environ = environ and slack_api = slack_api
              and st = st and since = since and until = until and w = ?w6] assms(1)
          obtain k where "send_slack environ slack_api st since until ?w6 = (Inl (KeyError k), ?w6)"
            by blast
          with mw c created u updated Inr n4 n2 show ?thesis by auto
        qed
      qed
    qed
  qed
qed

subsection \<open>A run without the chat credential\<close>

lemma sample_range:
  "get_report_range (datetime_of 2024 1 10 9 30 0 0 KST) =
     Inr (datetime_of 2024 1 5 16 0 0 0 KST, datetime_of 2024 1 12 16 0 0 0 KST)"
  by code_simp

lemma astimezone_same: "utcoffset d = tz \<Longrightarrow> astimezone d tz = Inr d"
  by (simp add: astimezone_def)

lemma sample_env_simps:
  "sample_env ''ORG_NAME'' = Some ''demo''" "sample_env ''GH_TOKEN'' = Some ''token''"
  "sample_env ''SLACK_BOT_TOKEN'' = None" "sample_env ''SLACK_CHANNEL_ID'' = None"
  by (simp_all add: sample_env_def)

lemma paginate_search_empty_page:
  "paginate_search sample_env (scripted [empty_page]) query q w =
     Some (Inr [], w\<lparr>net := net w @ [GRAPHQL_URL]\<rparr>)"
  using scripted_last [where environ = sample_env and token = "''token''" and mid = "[]"
      and final = empty_page and rest = "[]" and query = query and q = q and w = w]
  by (simp add: sample_env_simps empty_page_def page_nodes_def)

lemma aggregate_nothing:
  assumes "to_github_date since = Inr s" "to_github_date until = Inr u"
  shows "aggregate [] [] since until =
     Inr \<lparr>total_prs = 0, total_comments = 0, pr_by_repo = [], pr_by_person = [],
          comments_by_repo = [], comments_by_person = []\<rparr>"
  unfolding aggregate_Inr [OF assms] by (simp add: values_def desc_def)

lemma sample_run:
  "main sample_env (datetime_of 2024 1 10 9 30 0 0 KST) (scripted [empty_page]) slack_ok
     empty_world =
   Some (Inl (KeyError ''SLACK_BOT_TOKEN''),
     \<lparr>net = [GRAPHQL_URL, GRAPHQL_URL], stderr = [],
      stdout = [ReportHeader ''demo'' (datetime_of 2024 1 5 16 0 0 0 KST)
                  (datetime_of 2024 1 12 16 0 0 0 KST),
                CreatedCount 0, ReviewedCount 0, Totals 0 0]\<rparr>)"
proof -
  let ?since = "datetime_of 2024 1 5 16 0 0 0 KST" and ?until = "datetime_of 2024 1 12 16 0 0 0 KST"
  have k: "astimezone ?since KST = Inr ?since" "astimezone ?until KST = Inr ?until"
    by (simp_all add: astimezone_same datetime_of_def)
  have o: "sample_env ''ORG_NAME'' = Some ''demo''" "''demo'' \<noteq> []"
    by (simp_all add: sample_env_simps)
  have q: "\<exists>q. search_string ''demo'' field ?since ?until = Inr q" for field
    by (simp add: search_string_def sample_since sample_until)
  have c: "search_prs_created sample_env (scripted [empty_page]) ''demo'' ?since ?until w =
      Some (Inr [], w\<lparr>net := net w @ [GRAPHQL_URL]\<rparr>)" for w
    using q [of "''created''"]
    by (auto simp: search_prs_created_def paginate_search_empty_page)
  have u: "search_prs_with_reviews sample_env (scripted [empty_page]) ''demo'' ?since ?until w =
      Some (Inr [], w\<lparr>net := net w @ [GRAPHQL_URL]\<rparr>)" for w
    using q [of "''updated''"]
    by (auto simp: search_prs_with_reviews_def paginate_search_empty_page)
  have s: "send_slack sample_env slack_ok st ?since ?until w =
      (Inl (KeyError ''SLACK_BOT_TOKEN''), w)" for st w
    by (simp add: send_slack_def sample_env_simps)
  have "main sample_env (datetime_of 2024 1 10 9 30 0 0 KST) (scripted [empty_page]) slack_ok
      empty_world =
     (let w1 = empty_world\<lparr>stdout := stdout empty_world @ [ReportHeader ''demo'' ?since ?until]\<rparr> in
      case search_prs_created sample_env (scripted [empty_page]) ''demo'' ?since ?until w1 of
        None \<Rightarrow> None
      | Some (Inl e, w2) \<Rightarrow> Some (Inl e, w2)
      | Some (Inr created_prs, w2) \<Rightarrow>
         (let w3 = w2\<lparr>stdout := stdout w2 @ [CreatedCount (length created_prs)]\<rparr> in
          case search_prs_with_reviews sample_env (scripted [empty_page]) ''demo'' ?since ?until w3 of
            None \<Rightarrow> None
          | Some (Inl e, w4) \<Rightarrow> Some (Inl e, w4)
          | Some (Inr updated_prs, w4) \<Rightarrow>
             (let w5 = w4\<lparr>stdout := stdout w4 @ [ReviewedCount (length updated_prs)]\<rparr> in
              case aggregate created_prs updated_prs ?since ?until of
                Inl e \<Rightarrow> Some (Inl e, w5)
              | Inr st \<Rightarrow>
                 (let w6 = w5\<lparr>stdout := stdout w5 @
                             [Totals (total_prs st) (total_comments st)]\<rparr> in
                  Some (send_slack sample_env slack_ok st ?since ?until w6)))))"
    using o sample_range k by (rule main_with_window)
  also have "\<dots> = Some (Inl (KeyError ''SLACK_BOT_TOKEN''),
     \<lparr>net = [GRAPHQL_URL, GRAPHQL_URL], stderr = [],
      stdout = [ReportHeader ''demo'' ?since ?until,
                CreatedCount 0, ReviewedCount 0, Totals 0 0]\<rparr>)"
    by (simp add: c u s aggregate_nothing [OF sample_since sample_until] empty_world_def
        Let_def)
  finally show ?thesis .
qed

text \<open>
  Claim C8 as stated fails: with the organization name and the query credential present
  and the chat credential absent, the run fails only after two requests to the query API.
\<close>

theorem missing_slack_token_counterexample:
  "sample_env ''SLACK_BOT_TOKEN'' = None \<and>
   main sample_env (datetime_of 2024 1 10 9 30 0 0 KST) (scripted [empty_page]) slack_ok
     empty_world =
   Some (Inl (KeyError ''SLACK_BOT_TOKEN''),
     \<lparr>net = [GRAPHQL_URL, GRAPHQL_URL], stderr = [],
      stdout = [ReportHeader ''demo'' (datetime_of 2024 1 5 16 0 0 0 KST)
                  (datetime_of 2024 1 12 16 0 0 0 KST),
                CreatedCount 0, ReviewedCount 0, Totals 0 0]\<rparr>) \<and>
   [GRAPHQL_URL, GRAPHQL_URL] \<noteq> net empty_world"
  using sample_run by (simp add: sample_env_simps empty_world_def)

text \<open>
  Claim C8, amended. Without the organization name (absent or empty) the run ends at
  once with exit status 1, and without the query credential it ends with a status other
  than 0, in both cases before any network request. Without the chat credential or the
  channel identifier the run never ends with status 0 and never posts to the chat
  service, but it fails only in \<open>send_slack\<close>: whatever it has sent before went to the
  query API.
\<close>

theorem missing_configuration:
  "(environ ''ORG_NAME'' = None \<or> environ ''ORG_NAME'' = Some [] \<longrightarrow>
      main environ now_kst github slack_api w =
        Some (Inl (SystemExit 1), w\<lparr>stderr := stderr w @ [OrgNameRequired]\<rparr>)) \<and>
   (environ ''GH_TOKEN'' = None \<longrightarrow>
      (\<exists>r w'. main environ now_kst github slack_api w = Some (r, w') \<and>
         exit_status r \<noteq> 0 \<and> net w' = net w)) \<and>
   (environ ''SLACK_BOT_TOKEN'' = None \<or> environ ''SLACK_CHANNEL_ID'' = None \<longrightarrow>
      (\<forall>r w'. main environ now_kst github slack_api w = Some (r, w') \<longrightarrow>
         exit_status r \<noteq> 0 \<and> set (net w') \<subseteq> set (net w) \<union> {GRAPHQL_URL}))"
proof -
  have 1: "main environ now_kst github slack_api w =
        Some (Inl (SystemExit 1), w\<lparr>stderr := stderr w @ [OrgNameRequired]\<rparr>)"
    if "environ ''ORG_NAME'' = None \<or> environ ''ORG_NAME'' = Some []"
    using that by (rule main_no_org)
  have 2: "\<exists>r w'. main environ now_kst github slack_api w = Some (r, w') \<and>
         exit_status r \<noteq> 0 \<and> net w' = net w"
    if "environ ''GH_TOKEN'' = None"
  proof -
    from main_no_token [where environ = environ and now_kst = now_kst and github = github
        and slack_api = slack_api and w = w] that
    obtain e w' where "main environ now_kst github slack_api w = Some (Inl e, w')"
      "fatal e" "net w' = net w" by blast
    then show ?thesis by (auto simp: fatal_def)
  qed
  have 3: "exit_status r \<noteq> 0 \<and> set (net w') \<subseteq> set (net w) \<union> {GRAPHQL_URL}"
    if "environ ''SLACK_BOT_TOKEN'' = None \<or> environ ''SLACK_CHANNEL_ID'' = None"
      "main environ now_kst github slack_api w = Some (r, w')" for r w'
    using main_no_slack [where environ = environ and now_kst = now_kst and github = github
        and slack_api = slack_api and w = w and r = r and w' = w'] that
    by (auto simp: fatal_def)
  from 1 2 3 show ?thesis by blast
qed

theorem missing_configuration_witness:
  "main Map.empty (datetime_of 2024 1 10 9 30 0 0 KST) (scripted [empty_page]) slack_ok
     empty_world =
     Some (Inl (SystemExit 1), empty_world\<lparr>stderr := stderr empty_world @ [OrgNameRequired]\<rparr>) \<and>
   (\<exists>r w'. main (Map.empty(''ORG_NAME'' \<mapsto> ''demo''))
        (datetime_of 2024 1 10 9 30 0 0 KST) (scripted [empty_page]) slack_ok empty_world =
        Some (r, w') \<and> exit_status r \<noteq> 0 \<and> net w' = net empty_world) \<and>
   exit_status (Inl (KeyError ''SLACK_BOT_TOKEN'') :: failure + unit) \<noteq> 0 \<and>
   set [GRAPHQL_URL, GRAPHQL_URL] \<subseteq> set (net empty_world) \<union> {GRAPHQL_URL}"
proof -
  let ?now = "datetime_of 2024 1 10 9 30 0 0 KST"
  let ?org = "Map.empty(''ORG_NAME'' \<mapsto> ''demo'') :: env"
  have a: "main Map.empty ?now (scripted [empty_page]) slack_ok empty_world =
     Some (Inl (SystemExit 1), empty_world\<lparr>stderr := stderr empty_world @ [OrgNameRequired]\<rparr>)"
    using missing_configuration [where environ = Map.empty and now_kst = ?now
        and github = "scripted [empty_page]" and slack_api = slack_ok and w = empty_world]
    by simp
  have b: "\<exists>r w'. main ?org ?now (scripted [empty_page]) slack_ok empty_world =
        Some (r, w') \<and> exit_status r \<noteq> 0 \<and> net w' = net empty_world"
    using missing_configuration [where environ = ?org and now_kst = ?now
        and github = "scripted [empty_page]" and slack_api = slack_ok and w = empty_world]
    by simp
  let ?w = "\<lparr>net = [GRAPHQL_URL, GRAPHQL_URL], stderr = [],
      stdout = [ReportHeader ''demo'' (datetime_of 2024 1 5 16 0 0 0 KST)
                  (datetime_of 2024 1 12 16 0 0 0 KST),
                CreatedCount 0, ReviewedCount 0, Totals 0 0]\<rparr>"
  from missing_configuration [where environ = sample_env and now_kst = ?now
        and github = "scripted [empty_page]" and slack_api = slack_ok and w = empty_world]
      sample_run sample_env_simps(3)
  have "exit_status (Inl (KeyError ''SLACK_BOT_TOKEN'') :: failure + unit) \<noteq> 0 \<and>
      set (net ?w) \<subseteq> set (net empty_world) \<union> {GRAPHQL_URL}"
    by blast
  then have c: "exit_status (Inl (KeyError ''SLACK_BOT_TOKEN'') :: failure + unit) \<noteq> 0 \<and>
      set [GRAPHQL_URL, GRAPHQL_URL] \<subseteq> set (net empty_world) \<union> {GRAPHQL_URL}"
    by simp
  from a b c show ?thesis by blast
qed

end
